theory Spec2Isabelle
  imports Complex_Main
begin

section \<open>Python values\<close>

text \<open>
  A Python \<open>str\<close> is a sequence of Unicode code points, so it is modelled as a list of
  natural numbers: slicing, concatenation and equality then count what Python counts.
  ASCII literals are written through \<open>asc\<close>; the Korean and emoji literals of
  \<open>app.py\<close> are given by their code points.
\<close>

type_synonym pystr = "nat list"

definition asc :: "string \<Rightarrow> pystr" where
  "asc s = map of_char s"

text \<open>\<open>str.isspace\<close> of one code point (the table of CPython).\<close>

definition isspace :: "nat \<Rightarrow> bool" where
  "isspace c \<longleftrightarrow>
     (9 \<le> c \<and> c \<le> 13) \<or> (28 \<le> c \<and> c \<le> 32) \<or> c = 133 \<or> c = 160 \<or> c = 5760 \<or>
     (8192 \<le> c \<and> c \<le> 8202) \<or> c = 8232 \<or> c = 8233 \<or> c = 8239 \<or> c = 8287 \<or> c = 12288"

text \<open>\<open>s.strip()\<close>: whitespace removed at both ends.\<close>

definition strip :: "pystr \<Rightarrow> pystr" where
  "strip s = rev (dropWhile isspace (rev (dropWhile isspace s)))"

text \<open>
  \<open>s.upper()\<close> maps every code point on its own to its upper-case expansion. On ASCII
  that is \<open>a..z\<close> to \<open>A..Z\<close>; the expansion of a code point from 128 on is the
  Unicode table, which is taken as the parameter \<open>uc\<close>.
\<close>

definition upper_char :: "(nat \<Rightarrow> pystr) \<Rightarrow> nat \<Rightarrow> pystr" where
  "upper_char uc c =
     (if 97 \<le> c \<and> c \<le> 122 then [c - 32] else if c < 128 then [c] else uc c)"

definition upper :: "(nat \<Rightarrow> pystr) \<Rightarrow> pystr \<Rightarrow> pystr" where
  "upper uc s = concat (map (upper_char uc) s)"

text \<open>\<open>sub in s\<close> on strings: a search for \<open>sub\<close> at every position of \<open>s\<close>.\<close>

fun startswith :: "pystr \<Rightarrow> pystr \<Rightarrow> bool" where
  "startswith s [] = True"
| "startswith [] (p # ps) = False"
| "startswith (c # cs) (p # ps) = (c = p \<and> startswith cs ps)"

fun str_contains :: "pystr \<Rightarrow> pystr \<Rightarrow> bool" where
  "str_contains sub [] = (sub = [])"
| "str_contains sub (c # cs) = (startswith (c # cs) sub \<or> str_contains sub cs)"

text \<open>\<open>str(n)\<close> of a non-negative integer.\<close>

fun str_nat :: "nat \<Rightarrow> pystr" where
  "str_nat n = (if n < 10 then [48 + n] else str_nat (n div 10) @ [48 + n mod 10])"

declare str_nat.simps [simp del]

text \<open>
  An exception is an instance of \<open>Exception\<close>, which is what the handlers of
  \<open>app.py\<close> catch; it carries the text that \<open>str(e)\<close> gives.
\<close>

datatype exn = Exception pystr

fun str_exn :: "exn \<Rightarrow> pystr" where
  "str_exn (Exception msg) = msg"

section \<open>The data model\<close>

datatype role = User | Assistant | System

text \<open>A message dictionary of the chat-completion request.\<close>

record chat_message =
  role :: role
  content :: pystr

record chat_request =
  model :: pystr
  req_messages :: "chat_message list"
  max_tokens :: "nat option"
  temperature :: "real option"

text \<open>
  An entry of the parsed feed. A feed item need not have a title or a link: the entry then
  lacks the key, and reading \<open>entry.title\<close> or \<open>entry.link\<close> raises.
\<close>

record entry =
  e_title :: "pystr option"
  e_link :: "pystr option"

text \<open>The dictionary \<open>{"title", "link", "summary"}\<close> built for each processed entry.\<close>

record article =
  a_title :: pystr
  a_link :: pystr
  a_summary :: pystr

text \<open>
  A chat message of the session: \<open>news_results\<close> and \<open>timestamp\<close> are keys that
  may be absent.
\<close>

record message =
  m_role :: role
  m_content :: pystr
  m_news_results :: "article list option"
  m_timestamp :: "real option"

record collection =
  c_keyword :: pystr
  c_results :: "article list"
  c_timestamp :: pystr

datatype schedule_type = Daily | SpecificWeekday

record schedule =
  s_id :: nat
  s_type :: schedule_type
  s_keyword :: pystr
  s_hour :: int
  s_minute :: int
  s_active :: bool

text \<open>\<open>st.session_state\<close> once lines 166 to 173 have run.\<close>

record session_store =
  messages :: "message list"
  schedules :: "schedule list"
  collected_news :: "collection list"
  last_check_time :: "(pystr \<times> pystr) list"

definition empty_session :: session_store where
  "empty_session =
     \<lparr>messages = [], schedules = [], collected_news = [], last_check_time = []\<rparr>"

text \<open>The page that \<open>notion.pages.create\<close> is asked to create.\<close>

datatype block = Heading2 pystr | Paragraph pystr

record page_request =
  parent_page_id :: "pystr option"
  page_title :: pystr
  children :: "block list"

text \<open>What the script shows to the user beyond the chat transcript.\<close>

datatype ui_out = StError pystr | StToast pystr

text \<open>
  The key of a save button, \<open>f"notion_{i}_{message.get('timestamp', i)}"\<close>: the
  article index and either the timestamp of the message or, without one, the index again.
\<close>

datatype key_suffix = Timestamp real | Index nat

type_synonym widget_key = "nat \<times> key_suffix"

text \<open>
  One execution of the script is triggered by at most one widget: the schedule button
  (with the values of the form), a save button (with its key) or the chat input.
\<close>

datatype event =
  Idle
| ScheduleSubmit schedule_type pystr int int
| SaveClick widget_key
| ChatSubmit pystr

section \<open>The world and the external services\<close>

text \<open>
  The state the script runs in: the session store, what has been shown to the user, the
  widget keys registered in the current execution, the requests sent to the notes API so
  far, and the rest of the world (network, browser, model, clock) as an abstract state.
\<close>

record 'w world =
  session_state :: session_store
  ui :: "ui_out list"
  widget_keys :: "widget_key list"
  notion_requests :: "page_request list"
  outside :: 'w

text \<open>
  The libraries and services \<open>app.py\<close> calls. Each call reads and changes the outside
  world and either returns or raises. \<open>chat_completions_create\<close> stands for the request
  together with the read of \<open>response.choices[0].message.content\<close>.
\<close>

record 'w services =
  quote :: "pystr \<Rightarrow> pystr"
  unicode_upper :: "nat \<Rightarrow> pystr"
  notion_page_id :: "pystr option"
  feedparser_parse :: "pystr \<Rightarrow> 'w \<Rightarrow> (exn + entry list) \<times> 'w"
  chat_completions_create :: "chat_request \<Rightarrow> 'w \<Rightarrow> (exn + pystr) \<times> 'w"
  playwright_start :: "'w \<Rightarrow> (exn + unit) \<times> 'w"
  chromium_launch :: "'w \<Rightarrow> (exn + unit) \<times> 'w"
  new_page :: "'w \<Rightarrow> (exn + unit) \<times> 'w"
  page_goto :: "pystr \<Rightarrow> 'w \<Rightarrow> (exn + unit) \<times> 'w"
  page_inner_text :: "'w \<Rightarrow> (exn + pystr) \<times> 'w"
  browser_close :: "'w \<Rightarrow> (exn + unit) \<times> 'w"
  playwright_stop :: "'w \<Rightarrow> (exn + unit) \<times> 'w"
  notion_pages_create :: "page_request \<Rightarrow> 'w \<Rightarrow> (exn + unit) \<times> 'w"
  time_time :: "'w \<Rightarrow> real \<times> 'w"
  datetime_now :: "'w \<Rightarrow> pystr \<times> 'w"
  duplicate_key_error :: exn
  columns_error :: exn

subsection \<open>Control flow\<close>

text \<open>
  A piece of Python is a function from the world to its outcome (\<open>Inl\<close> the exception
  raised, \<open>Inr\<close> the value returned) and the world it leaves.
\<close>

type_synonym ('w, 'a) prog = "'w world \<Rightarrow> (exn + 'a) \<times> 'w world"

definition ret :: "'a \<Rightarrow> ('w, 'a) prog" where
  "ret x = (\<lambda>w. (Inr x, w))"

definition raise :: "exn \<Rightarrow> ('w, 'a) prog" where
  "raise e = (\<lambda>w. (Inl e, w))"

definition bind :: "('w, 'a) prog \<Rightarrow> ('a \<Rightarrow> ('w, 'b) prog) \<Rightarrow> ('w, 'b) prog" where
  "bind m f = (\<lambda>w. case m w of (Inl e, w') \<Rightarrow> (Inl e, w') | (Inr x, w') \<Rightarrow> f x w')"

text \<open>\<open>try: m except Exception as e: h e\<close>\<close>

definition try_except :: "('w, 'a) prog \<Rightarrow> (exn \<Rightarrow> ('w, 'a) prog) \<Rightarrow> ('w, 'a) prog" where
  "try_except m h = (\<lambda>w. case m w of (Inl e, w') \<Rightarrow> h e w' | (Inr x, w') \<Rightarrow> (Inr x, w'))"

text \<open>
  \<open>try: m finally: fin\<close>: \<open>fin\<close> runs whatever \<open>m\<close> did, and an exception of
  \<open>fin\<close> replaces the outcome of \<open>m\<close>.
\<close>

definition try_finally :: "('w, 'a) prog \<Rightarrow> ('w, unit) prog \<Rightarrow> ('w, 'a) prog" where
  "try_finally m fin =
     (\<lambda>w. case m w of (r, w') \<Rightarrow>
        (case fin w' of (Inl e, w'') \<Rightarrow> (Inl e, w'') | (Inr u, w'') \<Rightarrow> (r, w'')))"

text \<open>A call of an external service, and a read of the clock, which does not fail.\<close>

definition call :: "('w \<Rightarrow> (exn + 'a) \<times> 'w) \<Rightarrow> ('w, 'a) prog" where
  "call f = (\<lambda>w. case f (outside w) of (r, out') \<Rightarrow> (r, w\<lparr>outside := out'\<rparr>))"

definition read_clock :: "('w \<Rightarrow> 'a \<times> 'w) \<Rightarrow> ('w, 'a) prog" where
  "read_clock f = (\<lambda>w. case f (outside w) of (x, out') \<Rightarrow> (Inr x, w\<lparr>outside := out'\<rparr>))"

text \<open>
  The read of an attribute of a feed entry: the value when the entry has the key, and
  otherwise the \<open>AttributeError\<close> of feedparser, whose text names the attribute.
\<close>

definition get_attr :: "string \<Rightarrow> pystr option \<Rightarrow> ('w, pystr) prog" where
  "get_attr name v =
     (case v of
        Some x \<Rightarrow> ret x
      | None \<Rightarrow> raise (Exception (asc ''object has no attribute '' @ [39] @ asc name @ [39])))"

subsection \<open>Streamlit\<close>

definition st_error :: "pystr \<Rightarrow> ('w, unit) prog" where
  "st_error msg = (\<lambda>w. (Inr (), w\<lparr>ui := ui w @ [StError msg]\<rparr>))"

definition st_toast :: "pystr \<Rightarrow> ('w, unit) prog" where
  "st_toast msg = (\<lambda>w. (Inr (), w\<lparr>ui := ui w @ [StToast msg]\<rparr>))"

text \<open>
  \<open>st.button(label, key=k)\<close> registers the key and is true in the execution that the
  click on this button triggered. Streamlit refuses a key that the current execution has
  registered already.
\<close>

definition st_button :: "'w services \<Rightarrow> event \<Rightarrow> widget_key \<Rightarrow> ('w, bool) prog" where
  "st_button svc ev k =
     (\<lambda>w. if k \<in> set (widget_keys w) then (Inl (duplicate_key_error svc), w)
          else (Inr (ev = SaveClick k), w\<lparr>widget_keys := widget_keys w @ [k]\<rparr>))"

text \<open>\<open>st.columns(n)\<close> raises for \<open>n = 0\<close>.\<close>

definition st_columns :: "'w services \<Rightarrow> nat \<Rightarrow> ('w, unit) prog" where
  "st_columns svc n = (if n = 0 then raise (columns_error svc) else ret ())"

section \<open>Constants of app.py\<close>

definition TARGET_MODEL :: pystr where
  "TARGET_MODEL = asc ''gpt-5-nano''"

definition NEWS :: pystr where
  "NEWS = asc ''NEWS''"

text \<open>The system prompt of the intent classifier (lines 39 to 44).\<close>

definition INTENT_PROMPT :: pystr where
  "INTENT_PROMPT =
     [45817, 49888, 51008, 32, 49324, 50857, 51088, 32, 51032, 46020, 32, 48516, 47448,
      32, 51204, 47928, 44032, 51077, 45768, 45796, 46, 32, 10, 49324, 50857, 51088, 32,
      51077, 47141, 51060, 32, 45684, 49828, 47, 44592, 49324, 32, 44160, 49353, 51012,
      32, 50836, 44396, 54616, 45716, 51648, 32, 54032, 45800, 54616, 49464, 50836, 46,
      10, 45684, 49828, 32, 44160, 49353, 32, 50836, 52397, 32, 50696, 49884, 58, 32, 34,
      52572, 44540, 32, 65, 73, 32, 45684, 49828, 32, 50508, 47140, 51480, 34, 44, 32, 34,
      49340, 49457, 51204, 51088, 32, 44592, 49324, 32, 44160, 49353, 34, 44, 32, 34,
      50724, 45720, 32, 50556, 44396, 32, 44592, 49324, 34, 10, 51068, 48152, 32, 45824,
      54868, 32, 50696, 49884, 58, 32, 34, 50504, 45397, 34, 44, 32, 34, 45320, 45716, 32,
      45572, 44396, 50556, 34, 44, 32, 34, 45216, 50472, 32, 50612, 46412, 34, 10, 10,
      51025, 45813, 51008, 32, 48152, 46300, 49884, 32, 39, 78, 69, 87, 83, 39, 32, 46608,
      45716, 32, 39, 67, 72, 65, 84, 39, 32, 51473, 32, 54616, 45208, 47564, 32, 52636,
      47141, 54616, 49464, 50836, 46]"

text \<open>\<open>"... : "\<close> prefix of the message of line 58 (intent classification error).\<close>

definition INTENT_ERROR :: pystr where
  "INTENT_ERROR = [51032, 46020, 32, 54032, 45800, 32, 50724, 47448, 58, 32]"

text \<open>The system prompt of the summarizer (line 74).\<close>

definition SUMMARY_PROMPT :: pystr where
  "SUMMARY_PROMPT =
     [45684, 49828, 32, 50836, 50557, 32, 51204, 47928, 44032, 51077, 45768, 45796, 46,
      32, 71, 80, 84, 32, 53, 51032, 32, 48516, 49437, 47141, 51012, 32, 54876, 50857,
      54644, 32, 51, 51460, 32, 51060, 45236, 47196, 32, 54645, 49900, 47564, 32, 50836,
      50557, 54616, 49464, 50836, 46]"

text \<open>The two labels of the user message of line 75 (title, body).\<close>

definition TITLE_LABEL :: pystr where
  "TITLE_LABEL = [51228, 47785, 58, 32]"

definition BODY_LABEL :: pystr where
  "BODY_LABEL = [10, 48376, 47928, 58, 32]"

text \<open>Prefix of the inline error of line 80 (summary failed).\<close>

definition SUMMARY_FAILED :: pystr where
  "SUMMARY_FAILED = [50836, 50557, 32, 49892, 54056, 58, 32]"

text \<open>The sentinel text of line 91 (no related article found).\<close>

definition NO_RESULTS :: pystr where
  "NO_RESULTS =
     [44288, 47144, 32, 44592, 49324, 47484, 32, 52286, 51012, 32, 49688, 32, 50630, 49845,
      45768, 45796, 46]"

text \<open>The pieces of the response text of lines 103 to 107.\<close>

definition RESPONSE_HEAD :: pystr where
  "RESPONSE_HEAD = [128269, 32, 42, 42, 39]"

definition RESPONSE_INTRO :: pystr where
  "RESPONSE_INTRO =
     [39, 42, 42, 32, 44288, 47144, 32, 52572, 49888, 32, 45684, 49828, 47484, 32, 71, 80,
      84, 32, 53, 32, 45, 32, 110, 97, 110, 111, 44032, 32, 48516, 49437, 54664, 49845,
      45768, 45796, 46, 10, 10]"

definition ARTICLE_LABEL :: pystr where
  "ARTICLE_LABEL = [128240, 32, 42, 42, 44592, 49324, 32]"

definition LINK_LABEL :: pystr where
  "LINK_LABEL = [128279, 32, 91, 50896, 47928, 32, 47553, 53356, 93, 40]"

text \<open>Prefix of the reply of line 125 (error while generating the answer).\<close>

definition CHAT_ERROR :: pystr where
  "CHAT_ERROR =
     [51025, 45813, 32, 49373, 49457, 32, 51473, 32, 50724, 47448, 44032, 32, 48156, 49373,
      54664, 49845, 45768, 45796, 58, 32]"

text \<open>Heading and link label of the notes page (lines 134, 136), error prefix of line 141.\<close>

definition REPORT_HEADING :: pystr where
  "REPORT_HEADING =
     [128204, 32, 71, 80, 84, 32, 53, 32, 45684, 49828, 32, 47532, 54252, 53944]"

definition SOURCE_LABEL :: pystr where
  "SOURCE_LABEL = [128279, 32, 50896, 47928, 58, 32]"

definition NOTION_ERROR :: pystr where
  "NOTION_ERROR = [45432, 49496, 32, 51200, 51109, 32, 50724, 47448, 58, 32]"

text \<open>Title prefix of line 156 and error prefix of line 159 (automatic collection).\<close>

definition AUTO_PREFIX :: pystr where
  "AUTO_PREFIX = [91, 71, 80, 84, 53, 32, 51088, 46041, 49688, 51665, 93, 32]"

definition AUTO_ERROR :: pystr where
  "AUTO_ERROR = [51088, 46041, 32, 49688, 51665, 32, 50724, 47448, 58, 32]"

text \<open>The toast of line 211 (saved).\<close>

definition SAVED :: pystr where
  "SAVED = [51200, 51109, 32, 50756, 47308, 33]"

section \<open>The functions of app.py\<close>

subsection \<open>check_news_intent (lines 36 to 59)\<close>

text \<open>The request of lines 49 to 54, over the message list of lines 38 to 46.\<close>

definition intent_request :: "pystr \<Rightarrow> chat_message list \<Rightarrow> chat_request" where
  "intent_request user_input conversation_history =
     (let msgs = conversation_history @
            [\<lparr>role = System, content = INTENT_PROMPT\<rparr>,
             \<lparr>role = User, content = user_input\<rparr>]
      in \<lparr>model = TARGET_MODEL, req_messages = msgs,
          max_tokens = Some 10, temperature = Some 0\<rparr>)"

definition check_news_intent ::
  "'w services \<Rightarrow> pystr \<Rightarrow> chat_message list \<Rightarrow> ('w, bool) prog" where
  "check_news_intent svc user_input conversation_history =
     try_except
       (bind (call (chat_completions_create svc
                (intent_request user_input conversation_history)))
          (\<lambda>reply.
             let intent = upper (unicode_upper svc) (strip reply)
             in ret (str_contains NEWS intent)))
       (\<lambda>e. bind (st_error (INTENT_ERROR @ str_exn e)) (\<lambda>_. ret False))"

subsection \<open>crawl_and_summarize (lines 61 to 82)\<close>

text \<open>
  \<open>async with async_playwright() as p\<close> starts Playwright and stops it when the block
  is left. The browser is launched and the page opened before the \<open>try\<close>; the
  \<open>finally\<close> closes the browser. \<open>asyncio.run\<close> runs the coroutine to its end.
\<close>

text \<open>
  The body of the \<open>try\<close> (lines 67 to 78). It reads \<open>entry.link\<close> for the
  navigation and \<open>entry.title\<close> when it builds the request to the model.
\<close>

definition summarize_page :: "'w services \<Rightarrow> entry \<Rightarrow> ('w, pystr) prog" where
  "summarize_page svc entry =
     bind (get_attr ''link'' (e_link entry)) (\<lambda>link.
     bind (call (page_goto svc link)) (\<lambda>_.
     bind (call (page_inner_text svc)) (\<lambda>content.
       let content = take 2500 content
       in bind (get_attr ''title'' (e_title entry)) (\<lambda>title.
            call (chat_completions_create svc
              \<lparr>model = TARGET_MODEL,
               req_messages =
                 [\<lparr>role = System, content = SUMMARY_PROMPT\<rparr>,
                  \<lparr>role = User, content = TITLE_LABEL @ title @ BODY_LABEL @ content\<rparr>],
               max_tokens = None, temperature = None\<rparr>)))))"

definition crawl_and_summarize :: "'w services \<Rightarrow> entry \<Rightarrow> ('w, pystr) prog" where
  "crawl_and_summarize svc entry =
     bind (call (playwright_start svc)) (\<lambda>_.
       try_finally
         (bind (call (chromium_launch svc)) (\<lambda>_.
          bind (call (new_page svc)) (\<lambda>_.
            try_finally
              (try_except (summarize_page svc entry)
                 (\<lambda>e. ret (SUMMARY_FAILED @ str_exn e)))
              (call (browser_close svc)))))
         (call (playwright_stop svc)))"

subsection \<open>search_and_process_news (lines 84 to 109)\<close>

text \<open>
  The loop of lines 94 to 101, with \<open>results\<close> as its accumulator. The record of
  lines 97 to 101 reads \<open>entry.title\<close> and \<open>entry.link\<close> after the summary has come
  back, outside any \<open>try\<close>.
\<close>

fun process_entries ::
  "'w services \<Rightarrow> entry list \<Rightarrow> article list \<Rightarrow> ('w, article list) prog" where
  "process_entries svc [] results = ret results"
| "process_entries svc (entry # rest) results =
     bind (crawl_and_summarize svc entry) (\<lambda>summary.
     bind (get_attr ''title'' (e_title entry)) (\<lambda>title.
     bind (get_attr ''link'' (e_link entry)) (\<lambda>link.
       process_entries svc rest
         (results @ [\<lparr>a_title = title, a_link = link, a_summary = summary\<rparr>]))))"

text \<open>The loop of lines 104 to 107 over \<open>enumerate(results, 1)\<close>.\<close>

fun format_articles :: "nat \<Rightarrow> article list \<Rightarrow> pystr \<Rightarrow> pystr" where
  "format_articles i [] response_text = response_text"
| "format_articles i (article # rest) response_text =
     format_articles (Suc i) rest
       (response_text
        @ (ARTICLE_LABEL @ str_nat i @ asc '': '' @ a_title article @ asc ''**'' @ [10])
        @ (a_summary article @ [10])
        @ (LINK_LABEL @ a_link article @ [41, 10, 10]))"

definition rss_url :: "'w services \<Rightarrow> pystr \<Rightarrow> pystr" where
  "rss_url svc keyword =
     (let encoded_keyword = quote svc keyword
      in asc ''https://news.google.com/rss/search?q='' @ encoded_keyword
         @ asc ''&hl=ko&gl=KR&ceid=KR:ko'')"

definition search_and_process_news ::
  "'w services \<Rightarrow> pystr \<Rightarrow> ('w, article list option \<times> pystr) prog" where
  "search_and_process_news svc keyword =
     bind (call (feedparser_parse svc (rss_url svc keyword))) (\<lambda>entries.
       if entries = [] then ret (None, NO_RESULTS)
       else
         bind (process_entries svc (take 3 entries) []) (\<lambda>results.
           let response_text = RESPONSE_HEAD @ keyword @ RESPONSE_INTRO
           in ret (Some results, format_articles 1 results response_text)))"

subsection \<open>general_chat_response (lines 111 to 125)\<close>

definition general_chat_response ::
  "'w services \<Rightarrow> pystr \<Rightarrow> chat_message list \<Rightarrow> ('w, pystr) prog" where
  "general_chat_response svc user_input conversation_history =
     (let msgs = conversation_history @ [\<lparr>role = User, content = user_input\<rparr>]
      in try_except
           (call (chat_completions_create svc
              \<lparr>model = TARGET_MODEL, req_messages = msgs,
               max_tokens = None, temperature = Some (7 / 10)\<rparr>))
           (\<lambda>e. ret (CHAT_ERROR @ str_exn e)))"

subsection \<open>save_to_notion (lines 127 to 142)\<close>

text \<open>The call of \<open>notion.pages.create\<close>; the request is recorded before the API answers.\<close>

definition notion_create :: "'w services \<Rightarrow> page_request \<Rightarrow> ('w, unit) prog" where
  "notion_create svc req =
     (\<lambda>w. call (notion_pages_create svc req)
             (w\<lparr>notion_requests := notion_requests w @ [req]\<rparr>))"

definition notion_page :: "'w services \<Rightarrow> pystr \<Rightarrow> pystr \<Rightarrow> pystr \<Rightarrow> page_request" where
  "notion_page svc title summary link =
     \<lparr>parent_page_id = notion_page_id svc, page_title = title,
      children =
        [Heading2 REPORT_HEADING, Paragraph summary, Paragraph (SOURCE_LABEL @ link)]\<rparr>"

definition save_to_notion ::
  "'w services \<Rightarrow> pystr \<Rightarrow> pystr \<Rightarrow> pystr \<Rightarrow> ('w, bool) prog" where
  "save_to_notion svc title summary link =
     try_except
       (bind (notion_create svc (notion_page svc title summary link)) (\<lambda>_. ret True))
       (\<lambda>e. bind (st_error (NOTION_ERROR @ str_exn e)) (\<lambda>_. ret False))"

subsection \<open>auto_collect_news (lines 144 to 160)\<close>

definition append_collected :: "collection \<Rightarrow> ('w, unit) prog" where
  "append_collected c =
     (\<lambda>w. (Inr (), w\<lparr>session_state := (session_state w)
                      \<lparr>collected_news := collected_news (session_state w) @ [c]\<rparr>\<rparr>))"

text \<open>The loop of lines 155 and 156.\<close>

fun save_all :: "'w services \<Rightarrow> article list \<Rightarrow> ('w, unit) prog" where
  "save_all svc [] = ret ()"
| "save_all svc (article # rest) =
     bind (save_to_notion svc (AUTO_PREFIX @ a_title article) (a_summary article)
             (a_link article)) (\<lambda>_.
       save_all svc rest)"

text \<open>The body of the \<open>try\<close> (lines 147 to 157).\<close>

definition auto_collect_body :: "'w services \<Rightarrow> pystr \<Rightarrow> ('w, bool) prog" where
  "auto_collect_body svc keyword =
     bind (search_and_process_news svc keyword) (\<lambda>(news_results, text).
     bind (case news_results of
             None \<Rightarrow> ret ()
           | Some results \<Rightarrow>
               if results = [] then ret ()
               else
                 bind (read_clock (datetime_now svc)) (\<lambda>now.
                 bind (append_collected
                         \<lparr>c_keyword = keyword, c_results = results, c_timestamp = now\<rparr>) (\<lambda>_.
                   save_all svc results))) (\<lambda>_.
       ret True))"

definition auto_collect_news :: "'w services \<Rightarrow> pystr \<Rightarrow> ('w, bool) prog" where
  "auto_collect_news svc keyword =
     try_except (auto_collect_body svc keyword)
       (\<lambda>e. bind (st_error (AUTO_ERROR @ str_exn e)) (\<lambda>_. ret False))"

section \<open>The script (lines 162 to 232)\<close>

definition get_messages :: "('w, message list) prog" where
  "get_messages = (\<lambda>w. (Inr (messages (session_state w)), w))"

definition get_schedules :: "('w, schedule list) prog" where
  "get_schedules = (\<lambda>w. (Inr (schedules (session_state w)), w))"

definition append_schedule :: "schedule \<Rightarrow> ('w, unit) prog" where
  "append_schedule s =
     (\<lambda>w. (Inr (), w\<lparr>session_state := (session_state w)
                      \<lparr>schedules := schedules (session_state w) @ [s]\<rparr>\<rparr>))"

definition append_message :: "message \<Rightarrow> ('w, unit) prog" where
  "append_message m =
     (\<lambda>w. (Inr (), w\<lparr>session_state := (session_state w)
                      \<lparr>messages := messages (session_state w) @ [m]\<rparr>\<rparr>))"

text \<open>
  The schedule form (lines 185 to 195). The result says whether \<open>st.rerun()\<close> was
  called, which ends the execution; the execution it starts has no widget event.
\<close>

definition sidebar :: "event \<Rightarrow> ('w, bool) prog" where
  "sidebar ev =
     (case ev of
        ScheduleSubmit schedule_type search_keyword hour minute \<Rightarrow>
          if search_keyword \<noteq> [] then
            bind get_schedules (\<lambda>schedules.
              let new_schedule =
                    \<lparr>s_id = length schedules, s_type = schedule_type,
                     s_keyword = search_keyword, s_hour = hour, s_minute = minute,
                     s_active = True\<rparr>
              in bind (append_schedule new_schedule) (\<lambda>_. ret True))
          else ret False
      | _ \<Rightarrow> ret False)"

text \<open>The save buttons of one message (lines 207 to 211).\<close>

definition button_key :: "message \<Rightarrow> nat \<Rightarrow> widget_key" where
  "button_key message i =
     (i, case m_timestamp message of Some t \<Rightarrow> Timestamp t | None \<Rightarrow> Index i)"

fun render_buttons ::
  "'w services \<Rightarrow> event \<Rightarrow> message \<Rightarrow> nat \<Rightarrow> article list \<Rightarrow> ('w, unit) prog" where
  "render_buttons svc ev message i [] = ret ()"
| "render_buttons svc ev message i (article # rest) =
     bind (st_button svc ev (button_key message i)) (\<lambda>clicked.
     bind (if clicked then
             bind (save_to_notion svc (a_title article) (a_summary article)
                     (a_link article)) (\<lambda>_.
               st_toast SAVED)
           else ret ()) (\<lambda>_.
       render_buttons svc ev message (Suc i) rest))"

definition render_message :: "'w services \<Rightarrow> event \<Rightarrow> message \<Rightarrow> ('w, unit) prog" where
  "render_message svc ev message =
     (case m_news_results message of
        Some news_results \<Rightarrow>
          if m_role message = Assistant then
            bind (st_columns svc (length news_results)) (\<lambda>_.
              render_buttons svc ev message 0 news_results)
          else ret ()
      | None \<Rightarrow> ret ())"

fun render_messages :: "'w services \<Rightarrow> event \<Rightarrow> message list \<Rightarrow> ('w, unit) prog" where
  "render_messages svc ev [] = ret ()"
| "render_messages svc ev (message # rest) =
     bind (render_message svc ev message) (\<lambda>_. render_messages svc ev rest)"

text \<open>The chat input (lines 213 to 229).\<close>

definition chat_input :: "'w services \<Rightarrow> event \<Rightarrow> ('w, unit) prog" where
  "chat_input svc ev =
     (case ev of
        ChatSubmit prompt \<Rightarrow>
          if prompt \<noteq> [] then
            bind (append_message
                    \<lparr>m_role = User, m_content = prompt, m_news_results = None,
                     m_timestamp = None\<rparr>) (\<lambda>_.
            bind get_messages (\<lambda>messages.
              let conversation_history =
                    map (\<lambda>m. \<lparr>role = m_role m, content = m_content m\<rparr>)
                      (butlast messages)
              in
              bind (check_news_intent svc prompt conversation_history) (\<lambda>is_news.
                if is_news then
                  bind (search_and_process_news svc prompt) (\<lambda>(news_results, response_text).
                  bind (read_clock (time_time svc)) (\<lambda>now.
                    let assistant_message =
                          \<lparr>m_role = Assistant, m_content = response_text,
                           m_news_results = None, m_timestamp = Some now\<rparr>;
                        assistant_message =
                          (if news_results \<noteq> None \<and> news_results \<noteq> Some []
                           then assistant_message\<lparr>m_news_results := news_results\<rparr>
                           else assistant_message)
                    in append_message assistant_message))
                else
                  bind (general_chat_response svc prompt conversation_history)
                    (\<lambda>response_text.
                       append_message
                         \<lparr>m_role = Assistant, m_content = response_text,
                          m_news_results = None, m_timestamp = None\<rparr>))))
          else ret ()
      | _ \<Rightarrow> ret ())"

text \<open>
  One execution of the script for one event. Every execution starts with no widget key
  registered. The display calls that neither read nor write the session (titles, markdown,
  the spinner, the reload timer) are left out.
\<close>

definition begin_run :: "('w, unit) prog" where
  "begin_run = (\<lambda>w. (Inr (), w\<lparr>widget_keys := []\<rparr>))"

text \<open>The main area: the chat history with its save buttons, then the chat input.\<close>

definition main_area :: "'w services \<Rightarrow> event \<Rightarrow> ('w, unit) prog" where
  "main_area svc ev =
     bind get_messages (\<lambda>messages.
     bind (render_messages svc ev messages) (\<lambda>_.
       chat_input svc ev))"

definition run_script :: "'w services \<Rightarrow> event \<Rightarrow> ('w, unit) prog" where
  "run_script svc ev =
     bind begin_run (\<lambda>_.
     bind (sidebar ev) (\<lambda>rerun.
       if rerun then ret () else main_area svc ev))"

text \<open>
  The session states a user can reach: a new session (also what a reload of the page
  gives) starts from the empty store, and every execution of the script, whatever its
  event and however it ends, leads from a reachable state to a reachable state.
\<close>

inductive reachable :: "'w services \<Rightarrow> 'w world \<Rightarrow> bool" for svc :: "'w services" where
  new_session: "session_state w = empty_session \<Longrightarrow> reachable svc w"
| script_run: "reachable svc w \<Longrightarrow> reachable svc (snd (run_script svc ev w))"

section \<open>Notions used in the statements\<close>

text \<open>A call returns, rather than raises.\<close>

definition returns :: "(exn + 'a) \<times> 'b \<Rightarrow> bool" where
  "returns r = (case fst r of Inr x \<Rightarrow> True | Inl e \<Rightarrow> False)"

text \<open>
  The browser machinery works: starting and stopping Playwright, launching and closing the
  browser and opening a page return in every state of the outside world.
\<close>

definition browser_ok :: "'w services \<Rightarrow> bool" where
  "browser_ok svc \<longleftrightarrow>
     (\<forall>out. returns (playwright_start svc out) \<and> returns (chromium_launch svc out) \<and>
            returns (new_page svc out) \<and> returns (browser_close svc out) \<and>
            returns (playwright_stop svc out))"

text \<open>A feed entry has both a title and a link.\<close>

definition has_fields :: "entry \<Rightarrow> bool" where
  "has_fields entry \<longleftrightarrow> e_title entry \<noteq> None \<and> e_link entry \<noteq> None"

text \<open>The world in which the \<open>try\<close> of \<open>crawl_and_summarize\<close> starts.\<close>

definition after_open :: "'w services \<Rightarrow> 'w world \<Rightarrow> 'w world" where
  "after_open svc w =
     snd (call (new_page svc)
       (snd (call (chromium_launch svc) (snd (call (playwright_start svc) w)))))"

text \<open>The result list of \<open>search_and_process_news\<close>, if it returned one.\<close>

definition results_of ::
  "(exn + article list option \<times> pystr) \<times> 'b \<Rightarrow> article list option" where
  "results_of r = (case fst r of Inr (results, text) \<Rightarrow> results | Inl e \<Rightarrow> None)"

text \<open>A piece of code touches nothing but the outside world.\<close>

definition only_outside :: "('w, 'a) prog \<Rightarrow> bool" where
  "only_outside p \<longleftrightarrow> (\<forall>w. \<exists>out. snd (p w) = w\<lparr>outside := out\<rparr>)"

text \<open>A piece of code leaves a part \<open>f\<close> of the world as it was.\<close>

definition keeps :: "('w world \<Rightarrow> 'b) \<Rightarrow> ('w, 'a) prog \<Rightarrow> bool" where
  "keeps f p \<longleftrightarrow> (\<forall>w. f (snd (p w)) = f w)"

text \<open>The collections of the session other than the chat history.\<close>

definition rest_of_session ::
  "'w world \<Rightarrow> schedule list \<times> collection list \<times> (pystr \<times> pystr) list" where
  "rest_of_session w =
     (schedules (session_state w), collected_news (session_state w),
      last_check_time (session_state w))"

text \<open>
  The same world with other schedules, and code whose outcome and whose effect on the
  rest of the world are the same whatever the schedules are.
\<close>

definition with_schedules :: "schedule list \<Rightarrow> 'w world \<Rightarrow> 'w world" where
  "with_schedules ss w = w\<lparr>session_state := (session_state w)\<lparr>schedules := ss\<rparr>\<rparr>"

definition sched_indep :: "('w, 'a) prog \<Rightarrow> bool" where
  "sched_indep p \<longleftrightarrow>
     (\<forall>ss w. p (with_schedules ss w) = (fst (p w), with_schedules ss (snd (p w))))"

text \<open>The keys of the save buttons that a message puts on the page, in order.\<close>

definition message_keys :: "message \<Rightarrow> widget_key list" where
  "message_keys message =
     (case m_news_results message of
        Some news_results \<Rightarrow>
          if m_role message = Assistant
          then map (button_key message) [0..<length news_results] else []
      | None \<Rightarrow> [])"

text \<open>
  The save button of article \<open>i\<close> of message \<open>k\<close> is on the page: the messages before
  it render (no empty list of columns, no key used twice), and so do the buttons of
  message \<open>k\<close> up to this one.
\<close>

definition button_rendered :: "message list \<Rightarrow> nat \<Rightarrow> nat \<Rightarrow> bool" where
  "button_rendered msgs k i \<longleftrightarrow>
     k < length msgs \<and> i < length (message_keys (msgs ! k)) \<and>
     (\<forall>m \<in> set (take k msgs). m_role m = Assistant \<longrightarrow> m_news_results m \<noteq> Some []) \<and>
     distinct (concat (map message_keys (take k msgs)) @ take (Suc i) (message_keys (msgs ! k)))"

section \<open>A concrete world\<close>

text \<open>
  Services over a world that counts the calls made so far. The feed has four entries for a
  query on \<open>ai\<close> and none for any other; the page of the second entry cannot be loaded;
  the classifier answers \<open>news\<close> in lower case within blanks and the summarizer answers
  \<open>summary\<close>; everything else succeeds.
\<close>

definition demo_feed :: "entry list" where
  "demo_feed =
     [\<lparr>e_title = Some (asc ''A''), e_link = Some (asc ''http://a'')\<rparr>,
      \<lparr>e_title = Some (asc ''B''), e_link = Some (asc ''http://b'')\<rparr>,
      \<lparr>e_title = Some (asc ''C''), e_link = Some (asc ''http://c'')\<rparr>,
      \<lparr>e_title = Some (asc ''D''), e_link = Some (asc ''http://d'')\<rparr>]"

definition demo :: "nat services" where
  "demo =
     \<lparr>quote = (\<lambda>s. s),
      unicode_upper = (\<lambda>c. [c]),
      notion_page_id = Some (asc ''page''),
      feedparser_parse =
        (\<lambda>url n. (Inr (if str_contains (asc ''q=ai&'') url then demo_feed else []), Suc n)),
      chat_completions_create =
        (\<lambda>req n. (Inr (if max_tokens req = Some 10 then asc '' news '' else asc ''summary''),
                   Suc n)),
      playwright_start = (\<lambda>n. (Inr (), Suc n)),
      chromium_launch = (\<lambda>n. (Inr (), Suc n)),
      new_page = (\<lambda>n. (Inr (), Suc n)),
      page_goto =
        (\<lambda>url n. (if url = asc ''http://b'' then Inl (Exception (asc ''timeout''))
                   else Inr (), Suc n)),
      page_inner_text = (\<lambda>n. (Inr (asc ''text''), Suc n)),
      browser_close = (\<lambda>n. (Inr (), Suc n)),
      playwright_stop = (\<lambda>n. (Inr (), Suc n)),
      notion_pages_create = (\<lambda>req n. (Inr (), Suc n)),
      time_time = (\<lambda>n. (real n, Suc n)),
      datetime_now = (\<lambda>n. (asc ''2026-01-01 00:00:00'', Suc n)),
      duplicate_key_error = Exception (asc ''duplicate key''),
      columns_error = Exception (asc ''no columns'')\<rparr>"

text \<open>The same services with the model endpoint down, and with the notes API down.\<close>

definition demo_model_down :: "nat services" where
  "demo_model_down =
     demo\<lparr>chat_completions_create :=
            (\<lambda>req n. (Inl (Exception (asc ''connection refused'')), Suc n))\<rparr>"

definition demo_notion_down :: "nat services" where
  "demo_notion_down =
     demo\<lparr>notion_pages_create := (\<lambda>req n. (Inl (Exception (asc ''unauthorized'')), Suc n))\<rparr>"

text \<open>The same services with a model that answers with the empty text, and with no
  browser installed.\<close>

definition demo_silent :: "nat services" where
  "demo_silent = demo\<lparr>chat_completions_create := (\<lambda>req n. (Inr [], Suc n))\<rparr>"

definition demo_no_browser :: "nat services" where
  "demo_no_browser =
     demo\<lparr>chromium_launch := (\<lambda>n. (Inl (Exception (asc ''no browser'')), Suc n))\<rparr>"

text \<open>The same services with a feed of three items, the second of which has no link.\<close>

definition demo_feed_no_link :: "entry list" where
  "demo_feed_no_link =
     [\<lparr>e_title = Some (asc ''A''), e_link = Some (asc ''http://a'')\<rparr>,
      \<lparr>e_title = Some (asc ''B''), e_link = None\<rparr>,
      \<lparr>e_title = Some (asc ''C''), e_link = Some (asc ''http://c'')\<rparr>]"

definition demo_no_link :: "nat services" where
  "demo_no_link = demo\<lparr>feedparser_parse := (\<lambda>url n. (Inr demo_feed_no_link, Suc n))\<rparr>"

definition w0 :: "nat world" where
  "w0 = \<lparr>session_state = empty_session, ui = [], widget_keys = [], notion_requests = [],
         outside = 0\<rparr>"

text \<open>The world after one schedule has been added to the empty session.\<close>

definition w_scheduled :: "nat world" where
  "w_scheduled = snd (run_script demo (ScheduleSubmit Daily (asc ''ai'') 9 0) w0)"

text \<open>
  A session with a question and two answers that carry news results: two articles in the
  first, one in the second.
\<close>

definition demo_messages :: "message list" where
  "demo_messages =
     [\<lparr>m_role = User, m_content = asc ''ai'', m_news_results = None, m_timestamp = None\<rparr>,
      \<lparr>m_role = Assistant, m_content = asc ''two articles'',
       m_news_results =
         Some [\<lparr>a_title = asc ''A'', a_link = asc ''http://a'', a_summary = asc ''first''\<rparr>,
               \<lparr>a_title = asc ''B'', a_link = asc ''http://b'', a_summary = asc ''second''\<rparr>],
       m_timestamp = Some 5\<rparr>,
      \<lparr>m_role = Assistant, m_content = asc ''one article'',
       m_news_results =
         Some [\<lparr>a_title = asc ''C'', a_link = asc ''http://c'', a_summary = asc ''third''\<rparr>],
       m_timestamp = Some 7\<rparr>]"

definition w_news :: "nat world" where
  "w_news = w0\<lparr>session_state := empty_session\<lparr>messages := demo_messages\<rparr>\<rparr>"

section \<open>The substring test\<close>

lemmas prog_defs =
  bind_def ret_def raise_def call_def try_except_def try_finally_def read_clock_def

lemma startswith_iff: "startswith s p \<longleftrightarrow> (\<exists>post. s = p @ post)"
  by (induction s p rule: startswith.induct) auto

lemma str_contains_iff: "str_contains sub s \<longleftrightarrow> (\<exists>pre post. s = pre @ sub @ post)"
proof (induction s)
  case Nil
  then show ?case by auto
next
  case (Cons c cs)
  show ?case
  proof
    assume "str_contains sub (c # cs)"
    then consider "startswith (c # cs) sub" | "str_contains sub cs" by auto
    then show "\<exists>pre post. c # cs = pre @ sub @ post"
    proof cases
      case 1
      then obtain post where "c # cs = sub @ post" by (auto simp: startswith_iff)
      then have "c # cs = [] @ sub @ post" by simp
      then show ?thesis by blast
    next
      case 2
      then obtain pre post where "cs = pre @ sub @ post" using Cons.IH by auto
      then have "c # cs = (c # pre) @ sub @ post" by simp
      then show ?thesis by blast
    qed
  next
    assume "\<exists>pre post. c # cs = pre @ sub @ post"
    then obtain pre post where eq: "c # cs = pre @ sub @ post" by blast
    show "str_contains sub (c # cs)"
    proof (cases pre)
      case Nil
      with eq have "startswith (c # cs) sub" by (auto simp: startswith_iff)
      then show ?thesis by simp
    next
      case (Cons a pre')
      with eq have "cs = pre' @ sub @ post" by simp
      then have "str_contains sub cs" using Cons.IH by blast
      then show ?thesis by simp
    qed
  qed
qed

section \<open>The intent classifier\<close>

text \<open>
  Claim C3. Whenever the model call returns a reply, \<open>check_news_intent\<close> returns, and
  its result is true exactly when the token \<open>NEWS\<close> is a substring of the reply after
  \<open>strip()\<close> and \<open>upper()\<close>; a reply without the token therefore gives false, the chat
  path. Nothing but the outside world changes.
\<close>

theorem check_news_intent_reply:
  assumes "chat_completions_create svc (intent_request user_input history) (outside w)
             = (Inr reply, out')"
  shows "check_news_intent svc user_input history w =
           (Inr (\<exists>pre post. upper (unicode_upper svc) (strip reply) = pre @ NEWS @ post),
            w\<lparr>outside := out'\<rparr>)"
  using assms
  by (simp add: check_news_intent_def try_except_def bind_def call_def ret_def
      str_contains_iff)

theorem check_news_intent_reply_witness:
  "chat_completions_create demo (intent_request (asc ''ai'') []) (outside w0)
     = (Inr (asc '' news ''), 1) \<and>
   check_news_intent demo (asc ''ai'') [] w0 =
     (Inr (\<exists>pre post. upper (unicode_upper demo) (strip (asc '' news '')) = pre @ NEWS @ post),
      w0\<lparr>outside := 1\<rparr>)"
proof -
  have h: "chat_completions_create demo (intent_request (asc ''ai'') []) (outside w0)
             = (Inr (asc '' news ''), 1)"
    by (simp add: demo_def w0_def intent_request_def)
  from h check_news_intent_reply [OF h] show ?thesis by simp
qed

text \<open>The reply of the concrete classifier, \<open>news\<close> in lower case, is a news request.\<close>

lemma check_news_intent_demo: "fst (check_news_intent demo (asc ''ai'') [] w0) = Inr True"
  by (simp add: check_news_intent_def try_except_def bind_def call_def ret_def demo_def w0_def
      intent_request_def asc_def NEWS_def strip_def upper_def upper_char_def isspace_def)

text \<open>
  Claim C4. When the model call raises, \<open>check_news_intent\<close> does not raise: it returns
  false, and the only effect besides that of the call is one \<open>st.error\<close> with the text
  of the exception.
\<close>

theorem check_news_intent_error:
  assumes "chat_completions_create svc (intent_request user_input history) (outside w)
             = (Inl e, out')"
  shows "check_news_intent svc user_input history w =
           (Inr False,
            w\<lparr>outside := out', ui := ui w @ [StError (INTENT_ERROR @ str_exn e)]\<rparr>)"
  using assms
  by (simp add: check_news_intent_def try_except_def bind_def call_def ret_def st_error_def)

theorem check_news_intent_error_witness:
  "chat_completions_create demo_model_down (intent_request (asc ''ai'') []) (outside w0)
     = (Inl (Exception (asc ''connection refused'')), 1) \<and>
   check_news_intent demo_model_down (asc ''ai'') [] w0 =
     (Inr False,
      w0\<lparr>outside := 1,
         ui := ui w0 @ [StError (INTENT_ERROR @ asc ''connection refused'')]\<rparr>)"
proof -
  have h: "chat_completions_create demo_model_down (intent_request (asc ''ai'') [])
             (outside w0) = (Inl (Exception (asc ''connection refused'')), 1)"
    by (simp add: demo_model_down_def demo_def w0_def)
  from h check_news_intent_error [OF h] show ?thesis by simp
qed

section \<open>The news retriever\<close>

text \<open>
  Claim C2. When the parsed feed of the keyword has no entry, \<open>search_and_process_news\<close>
  returns the pair of \<open>None\<close> and the text of line 91.
\<close>

theorem search_no_entries:
  assumes "feedparser_parse svc (rss_url svc keyword) (outside w) = (Inr [], out')"
  shows "search_and_process_news svc keyword w =
           (Inr (None, NO_RESULTS), w\<lparr>outside := out'\<rparr>)"
  using assms
  by (simp add: search_and_process_news_def bind_def call_def ret_def)

theorem search_no_entries_witness:
  "feedparser_parse demo (rss_url demo (asc ''zzz'')) (outside w0) = (Inr [], 1) \<and>
   search_and_process_news demo (asc ''zzz'') w0 =
     (Inr (None, NO_RESULTS), w0\<lparr>outside := 1\<rparr>)"
proof -
  have h: "feedparser_parse demo (rss_url demo (asc ''zzz'')) (outside w0) = (Inr [], 1)"
    by (simp add: demo_def w0_def rss_url_def asc_def)
  from h search_no_entries [OF h] show ?thesis by simp
qed

section \<open>The archive writer\<close>

text \<open>
  Claim C6. When \<open>notion.pages.create\<close> raises, \<open>save_to_notion\<close> returns false and
  the four collections of the session store are what they were before the call.
\<close>

theorem save_to_notion_failure:
  assumes "notion_pages_create svc (notion_page svc title summary link) (outside w)
             = (Inl e, out')"
  shows "\<exists>w'. save_to_notion svc title summary link w = (Inr False, w') \<and>
              messages (session_state w') = messages (session_state w) \<and>
              schedules (session_state w') = schedules (session_state w) \<and>
              collected_news (session_state w') = collected_news (session_state w) \<and>
              last_check_time (session_state w') = last_check_time (session_state w)"
  using assms
  by (simp add: save_to_notion_def notion_create_def try_except_def bind_def call_def
      ret_def st_error_def)

theorem save_to_notion_failure_witness:
  "notion_pages_create demo_notion_down
     (notion_page demo_notion_down (asc ''T'') (asc ''S'') (asc ''L'')) (outside w0)
     = (Inl (Exception (asc ''unauthorized'')), 1) \<and>
   (\<exists>w'. save_to_notion demo_notion_down (asc ''T'') (asc ''S'') (asc ''L'') w0
           = (Inr False, w') \<and>
         messages (session_state w') = messages (session_state w0) \<and>
         schedules (session_state w') = schedules (session_state w0) \<and>
         collected_news (session_state w') = collected_news (session_state w0) \<and>
         last_check_time (session_state w') = last_check_time (session_state w0))"
proof -
  have h: "notion_pages_create demo_notion_down
     (notion_page demo_notion_down (asc ''T'') (asc ''S'') (asc ''L'')) (outside w0)
     = (Inl (Exception (asc ''unauthorized'')), 1)"
    by (simp add: demo_notion_down_def demo_def w0_def)
  from h save_to_notion_failure [OF h] show ?thesis by simp
qed

section \<open>The article summarizer\<close>

lemma returns_unit:
  assumes "returns r"
  shows "\<exists>b. r = (Inr (), b)"
  using assms by (cases r; cases "fst r") (auto simp: returns_def)

text \<open>
  With a working browser the outcome of \<open>crawl_and_summarize\<close> is decided by the body of
  its \<open>try\<close>: the reply of the model, or the text of line 80 around the exception.
\<close>

lemma crawl_returns:
  assumes ok: "browser_ok svc"
  shows "\<exists>w'. crawl_and_summarize svc entry w =
           (Inr (case fst (summarize_page svc entry (after_open svc w)) of
                   Inr reply \<Rightarrow> reply
                 | Inl e \<Rightarrow> SUMMARY_FAILED @ str_exn e), w')"
proof -
  from ok obtain o1 where s1: "playwright_start svc (outside w) = (Inr (), o1)"
    unfolding browser_ok_def using returns_unit by blast
  from ok obtain o2 where s2: "chromium_launch svc o1 = (Inr (), o2)"
    unfolding browser_ok_def using returns_unit by blast
  from ok obtain o3 where s3: "new_page svc o2 = (Inr (), o3)"
    unfolding browser_ok_def using returns_unit by blast
  have open_eq: "after_open svc w = w\<lparr>outside := o3\<rparr>"
    by (simp add: after_open_def call_def s1 s2 s3)
  obtain r w4 where s4: "summarize_page svc entry (w\<lparr>outside := o3\<rparr>) = (r, w4)"
    by (cases "summarize_page svc entry (w\<lparr>outside := o3\<rparr>)")
  from ok obtain o5 where s5: "browser_close svc (outside w4) = (Inr (), o5)"
    unfolding browser_ok_def using returns_unit by blast
  from ok obtain o6 where s6: "playwright_stop svc o5 = (Inr (), o6)"
    unfolding browser_ok_def using returns_unit by blast
  show ?thesis
    by (cases r) (simp_all add: crawl_and_summarize_def prog_defs open_eq s1 s2 s3 s4 s5 s6)
qed

text \<open>
  Then the loop over entries that have a title and a link runs to its end, one record
  per entry.
\<close>

lemma process_entries_returns:
  assumes ok: "browser_ok svc" and fields: "\<forall>e \<in> set entries. has_fields e"
  shows "\<exists>results w'. process_entries svc entries acc w = (Inr results, w') \<and>
           length results = length acc + length entries"
  using fields
proof (induction entries arbitrary: acc w)
  case Nil
  show ?case by (simp add: ret_def)
next
  case (Cons entry rest)
  from Cons.prems obtain t l where t: "e_title entry = Some t" and l: "e_link entry = Some l"
    by (auto simp: has_fields_def)
  from Cons.prems have rest: "\<forall>e \<in> set rest. has_fields e" by simp
  from crawl_returns [OF ok] obtain s w1
    where c: "crawl_and_summarize svc entry w = (Inr s, w1)"
    by blast
  from Cons.IH [OF rest, of "acc @ [\<lparr>a_title = t, a_link = l, a_summary = s\<rparr>]" w1]
  show ?case by (auto simp: bind_def ret_def get_attr_def c t l)
qed

text \<open>A failure to launch the browser leaves \<open>crawl_and_summarize\<close> with an exception.\<close>

lemma crawl_launch_fails:
  assumes "playwright_start svc (outside w) = (Inr (), o1)"
    and "chromium_launch svc o1 = (Inl e, o2)"
  shows "fst (crawl_and_summarize svc entry w) =
           Inl (case fst (playwright_stop svc o2) of Inl e' \<Rightarrow> e' | Inr u \<Rightarrow> e)"
  using assms
  by (cases "playwright_stop svc o2"; cases "fst (playwright_stop svc o2)")
    (simp_all add: crawl_and_summarize_def prog_defs)

subsection \<open>The concrete services\<close>

lemma browser_ok_demo: "browser_ok demo"
  by (simp add: browser_ok_def returns_def demo_def)

lemma crawl_demo:
  "crawl_and_summarize demo \<lparr>e_title = Some t, e_link = Some l\<rparr> w =
     (Inr (if l = asc ''http://b'' then SUMMARY_FAILED @ asc ''timeout''
           else asc ''summary''),
      w\<lparr>outside := outside w + (if l = asc ''http://b'' then 6 else 8)\<rparr>)"
  by (simp add: crawl_and_summarize_def summarize_page_def get_attr_def prog_defs demo_def)

lemma crawl_demo_silent:
  "crawl_and_summarize demo_silent \<lparr>e_title = Some t, e_link = Some l\<rparr> w =
     (Inr (if l = asc ''http://b'' then SUMMARY_FAILED @ asc ''timeout'' else []),
      w\<lparr>outside := outside w + (if l = asc ''http://b'' then 6 else 8)\<rparr>)"
  by (simp add: crawl_and_summarize_def summarize_page_def get_attr_def prog_defs
      demo_silent_def demo_def)

lemma crawl_demo_no_browser:
  "crawl_and_summarize demo_no_browser e w =
     (Inl (Exception (asc ''no browser'')), w\<lparr>outside := outside w + 3\<rparr>)"
  by (simp add: crawl_and_summarize_def prog_defs demo_no_browser_def demo_def)

lemma crawl_demo_no_link:
  "crawl_and_summarize demo_no_link \<lparr>e_title = Some t, e_link = Some l\<rparr> w =
     (Inr (if l = asc ''http://b'' then SUMMARY_FAILED @ asc ''timeout''
           else asc ''summary''),
      w\<lparr>outside := outside w + (if l = asc ''http://b'' then 6 else 8)\<rparr>)"
  "crawl_and_summarize demo_no_link \<lparr>e_title = Some t, e_link = None\<rparr> w =
     (Inr (SUMMARY_FAILED @ asc ''object has no attribute '' @ [39] @ asc ''link'' @ [39]),
      w\<lparr>outside := outside w + 5\<rparr>)"
  by (simp_all add: crawl_and_summarize_def summarize_page_def get_attr_def prog_defs
      demo_no_link_def demo_def)

lemma feed_demo_ai:
  "feedparser_parse demo (rss_url demo (asc ''ai'')) n = (Inr demo_feed, Suc n)"
  by (simp add: demo_def rss_url_def asc_def)

lemma feed_demo_variants:
  "feedparser_parse demo_silent = feedparser_parse demo"
  "feedparser_parse demo_no_browser = feedparser_parse demo"
  "rss_url demo_silent = rss_url demo"
  "rss_url demo_no_browser = rss_url demo"
  by (simp_all add: demo_silent_def demo_no_browser_def rss_url_def fun_eq_iff)

lemma feed_demo_no_link:
  "feedparser_parse demo_no_link url n = (Inr demo_feed_no_link, Suc n)"
  by (simp add: demo_no_link_def)

lemma demo_links:
  "asc ''http://a'' \<noteq> asc ''http://b''" "asc ''http://c'' \<noteq> asc ''http://b''"
  by (simp_all add: asc_def)

lemma demo_feed_fields: "\<forall>e \<in> set demo_feed. has_fields e"
  by (simp add: demo_feed_def has_fields_def)

subsection \<open>When crawl_and_summarize returns\<close>

text \<open>
  Claim C5, as stated, fails in two ways. The browser is launched and the page opened
  before the \<open>try\<close> of line 66, so without a browser \<open>crawl_and_summarize\<close> raises
  and the loop over the entries is left with that exception. And with a working browser,
  for an entry without a link \<open>crawl_and_summarize\<close> returns the text of line 80, but
  line 99 then reads \<open>entry.link\<close> outside any \<open>try\<close> and the loop is left all the
  same, before the third entry is processed.
\<close>

theorem crawl_and_summarize_counterexample:
  "fst (crawl_and_summarize demo_no_browser (demo_feed ! 0) w0)
     = Inl (Exception (asc ''no browser'')) \<and>
   fst (process_entries demo_no_browser demo_feed [] w0)
     = Inl (Exception (asc ''no browser'')) \<and>
   fst (crawl_and_summarize demo_no_link (demo_feed_no_link ! 1) w0)
     = Inr (SUMMARY_FAILED @ asc ''object has no attribute '' @ [39] @ asc ''link'' @ [39]) \<and>
   fst (process_entries demo_no_link demo_feed_no_link [] w0)
     = Inl (Exception (asc ''object has no attribute '' @ [39] @ asc ''link'' @ [39]))"
  by (simp add: crawl_demo_no_browser crawl_demo_no_link demo_feed_def demo_feed_no_link_def
      bind_def ret_def raise_def get_attr_def)

text \<open>
  Claim C5, amended. When starting and stopping Playwright, launching and closing the
  browser and opening the page do not fail, \<open>crawl_and_summarize\<close> returns for every
  entry: the reply of the model when the reads of the entry, the navigation, the
  extraction and the summarization succeed, and otherwise the text of line 80 with the
  exception. A failure on one article then does not end the loop over entries that have
  a title and a link: it returns one record for every entry. When the launch of the
  browser raises, \<open>crawl_and_summarize\<close> raises: that exception, or the one of stopping
  Playwright.
\<close>

theorem crawl_and_summarize_browser_ok:
  "(browser_ok svc \<longrightarrow>
      fst (crawl_and_summarize svc entry w) =
        Inr (case fst (summarize_page svc entry (after_open svc w)) of
               Inr reply \<Rightarrow> reply
             | Inl e \<Rightarrow> SUMMARY_FAILED @ str_exn e) \<and>
      ((\<forall>e \<in> set entries. has_fields e) \<longrightarrow>
         (\<exists>results. fst (process_entries svc entries acc w) = Inr results \<and>
                    length results = length acc + length entries))) \<and>
   (playwright_start svc (outside w) = (Inr (), o1) \<and> chromium_launch svc o1 = (Inl e, o2) \<longrightarrow>
      fst (crawl_and_summarize svc entry w) =
        Inl (case fst (playwright_stop svc o2) of Inl e' \<Rightarrow> e' | Inr u \<Rightarrow> e))"
proof (intro conjI impI)
  assume ok: "browser_ok svc"
  from crawl_returns [OF ok, of entry w]
  show "fst (crawl_and_summarize svc entry w) =
           Inr (case fst (summarize_page svc entry (after_open svc w)) of
                  Inr reply \<Rightarrow> reply
                | Inl e \<Rightarrow> SUMMARY_FAILED @ str_exn e)"
    by auto
  assume "\<forall>e \<in> set entries. has_fields e"
  from process_entries_returns [OF ok this, of acc w]
  show "\<exists>results. fst (process_entries svc entries acc w) = Inr results \<and>
                    length results = length acc + length entries"
    by auto
next
  assume a: "playwright_start svc (outside w) = (Inr (), o1) \<and> chromium_launch svc o1 = (Inl e, o2)"
  from crawl_launch_fails [OF conjunct1 [OF a] conjunct2 [OF a], of entry]
  show "fst (crawl_and_summarize svc entry w) =
        Inl (case fst (playwright_stop svc o2) of Inl e' \<Rightarrow> e' | Inr u \<Rightarrow> e)" .
qed

lemma launch_demo_no_browser:
  "playwright_start demo_no_browser (outside w0) = (Inr (), 1) \<and>
   chromium_launch demo_no_browser 1 = (Inl (Exception (asc ''no browser'')), 2)"
  by (simp add: demo_no_browser_def demo_def w0_def)

theorem crawl_and_summarize_browser_ok_witness:
  "(browser_ok demo \<and>
    fst (crawl_and_summarize demo (demo_feed ! 1) w0) =
      Inr (case fst (summarize_page demo (demo_feed ! 1) (after_open demo w0)) of
             Inr reply \<Rightarrow> reply
           | Inl e \<Rightarrow> SUMMARY_FAILED @ str_exn e) \<and>
    list_all has_fields demo_feed \<and>
    (\<exists>results. fst (process_entries demo demo_feed [] w0) = Inr results \<and>
               length results = length ([] :: article list) + length demo_feed)) \<and>
   (playwright_start demo_no_browser (outside w0) = (Inr (), 1) \<and>
    chromium_launch demo_no_browser 1 = (Inl (Exception (asc ''no browser'')), 2) \<and>
    fst (crawl_and_summarize demo_no_browser (demo_feed ! 0) w0) =
      Inl (case fst (playwright_stop demo_no_browser 2) of
             Inl e' \<Rightarrow> e'
           | Inr u \<Rightarrow> Exception (asc ''no browser'')))"
  using browser_ok_demo demo_feed_fields launch_demo_no_browser
    crawl_and_summarize_browser_ok [of demo "demo_feed ! 1" w0 demo_feed "[]"]
    crawl_and_summarize_browser_ok [of demo_no_browser "demo_feed ! 0" w0 _ _ 1
      "Exception (asc ''no browser'')" 2]
  unfolding list_all_iff by blast

text \<open>The page of the second entry of the concrete feed does not load.\<close>

lemma crawl_demo_failed:
  "fst (crawl_and_summarize demo (demo_feed ! 1) w0) = Inr (SUMMARY_FAILED @ asc ''timeout'')"
  by (simp add: crawl_demo demo_feed_def)

section \<open>The first three entries\<close>

text \<open>
  Claim C1, as stated, fails. The fields of a record are copied from the entry and from
  \<open>crawl_and_summarize\<close> without a check, so they can be empty: here the model answers
  with the empty text. A failure to launch the browser leaves the function with an
  exception and no record at all, and so does an entry without a link, whose read on
  line 99 raises.
\<close>

theorem search_three_entries_counterexample:
  "feedparser_parse demo_silent (rss_url demo_silent (asc ''ai'')) (outside w0)
     = (Inr demo_feed, 1) \<and>
   length demo_feed = 4 \<and>
   results_of (search_and_process_news demo_silent (asc ''ai'') w0) =
     Some [\<lparr>a_title = asc ''A'', a_link = asc ''http://a'', a_summary = []\<rparr>,
           \<lparr>a_title = asc ''B'', a_link = asc ''http://b'',
            a_summary = SUMMARY_FAILED @ asc ''timeout''\<rparr>,
           \<lparr>a_title = asc ''C'', a_link = asc ''http://c'', a_summary = []\<rparr>] \<and>
   fst (search_and_process_news demo_no_browser (asc ''ai'') w0)
     = Inl (Exception (asc ''no browser'')) \<and>
   feedparser_parse demo_no_link (rss_url demo_no_link (asc ''ai'')) (outside w0)
     = (Inr demo_feed_no_link, 1) \<and>
   length demo_feed_no_link = 3 \<and>
   fst (search_and_process_news demo_no_link (asc ''ai'') w0)
     = Inl (Exception (asc ''object has no attribute '' @ [39] @ asc ''link'' @ [39]))"
  by (simp add: search_and_process_news_def bind_def call_def ret_def raise_def get_attr_def
      results_of_def feed_demo_variants feed_demo_ai feed_demo_no_link crawl_demo_silent
      crawl_demo_no_browser crawl_demo_no_link demo_feed_def demo_feed_no_link_def demo_links
      w0_def)

text \<open>
  Claim C1, amended. When the parsed feed has at least three entries, each of the first
  three has a title and a link, and \<open>crawl_and_summarize\<close> returns for each of them, in
  feed order and each in the world the one before left, \<open>search_and_process_news\<close>
  returns exactly three records, in that order; each has the title and the link of its
  entry and the summary returned for it. No other entry is processed: the world left is
  the one after the third.
\<close>

theorem search_three_entries:
  assumes feed: "feedparser_parse svc (rss_url svc keyword) (outside w) = (Inr entries, out')"
    and len: "3 \<le> length entries"
    and e1: "entries ! 0 = \<lparr>e_title = Some t1, e_link = Some l1\<rparr>"
    and e2: "entries ! 1 = \<lparr>e_title = Some t2, e_link = Some l2\<rparr>"
    and e3: "entries ! 2 = \<lparr>e_title = Some t3, e_link = Some l3\<rparr>"
    and c1: "crawl_and_summarize svc (entries ! 0) (w\<lparr>outside := out'\<rparr>) = (Inr s1, w1)"
    and c2: "crawl_and_summarize svc (entries ! 1) w1 = (Inr s2, w2)"
    and c3: "crawl_and_summarize svc (entries ! 2) w2 = (Inr s3, w3)"
  shows "let results =
               [\<lparr>a_title = t1, a_link = l1, a_summary = s1\<rparr>,
                \<lparr>a_title = t2, a_link = l2, a_summary = s2\<rparr>,
                \<lparr>a_title = t3, a_link = l3, a_summary = s3\<rparr>]
         in search_and_process_news svc keyword w =
              (Inr (Some results,
                    format_articles 1 results (RESPONSE_HEAD @ keyword @ RESPONSE_INTRO)), w3)"
proof -
  from len obtain x0 x1 x2 rest where es: "entries = x0 # x1 # x2 # rest"
    by (cases entries; cases "tl entries"; cases "tl (tl entries)") auto
  show ?thesis
    using feed e1 e2 e3 c1 c2 c3
    by (simp add: es search_and_process_news_def bind_def call_def ret_def get_attr_def)
qed

theorem search_three_entries_witness:
  "feedparser_parse demo (rss_url demo (asc ''ai'')) (outside w0) = (Inr demo_feed, 1) \<and>
   3 \<le> length demo_feed \<and>
   demo_feed ! 0 = \<lparr>e_title = Some (asc ''A''), e_link = Some (asc ''http://a'')\<rparr> \<and>
   demo_feed ! 1 = \<lparr>e_title = Some (asc ''B''), e_link = Some (asc ''http://b'')\<rparr> \<and>
   demo_feed ! 2 = \<lparr>e_title = Some (asc ''C''), e_link = Some (asc ''http://c'')\<rparr> \<and>
   crawl_and_summarize demo (demo_feed ! 0) (w0\<lparr>outside := 1\<rparr>)
     = (Inr (asc ''summary''), w0\<lparr>outside := 9\<rparr>) \<and>
   crawl_and_summarize demo (demo_feed ! 1) (w0\<lparr>outside := 9\<rparr>)
     = (Inr (SUMMARY_FAILED @ asc ''timeout''), w0\<lparr>outside := 15\<rparr>) \<and>
   crawl_and_summarize demo (demo_feed ! 2) (w0\<lparr>outside := 15\<rparr>)
     = (Inr (asc ''summary''), w0\<lparr>outside := 23\<rparr>) \<and>
   (let results =
          [\<lparr>a_title = asc ''A'', a_link = asc ''http://a'', a_summary = asc ''summary''\<rparr>,
           \<lparr>a_title = asc ''B'', a_link = asc ''http://b'',
            a_summary = SUMMARY_FAILED @ asc ''timeout''\<rparr>,
           \<lparr>a_title = asc ''C'', a_link = asc ''http://c'', a_summary = asc ''summary''\<rparr>]
    in search_and_process_news demo (asc ''ai'') w0 =
         (Inr (Some results,
               format_articles 1 results (RESPONSE_HEAD @ asc ''ai'' @ RESPONSE_INTRO)),
          w0\<lparr>outside := 23\<rparr>))"
proof -
  have feed: "feedparser_parse demo (rss_url demo (asc ''ai'')) (outside w0) = (Inr demo_feed, 1)"
    by (simp add: feed_demo_ai w0_def)
  have len: "3 \<le> length demo_feed"
    by (simp add: demo_feed_def)
  have e1: "demo_feed ! 0 = \<lparr>e_title = Some (asc ''A''), e_link = Some (asc ''http://a'')\<rparr>"
    and e2: "demo_feed ! 1 = \<lparr>e_title = Some (asc ''B''), e_link = Some (asc ''http://b'')\<rparr>"
    and e3: "demo_feed ! 2 = \<lparr>e_title = Some (asc ''C''), e_link = Some (asc ''http://c'')\<rparr>"
    by (simp_all add: demo_feed_def)
  have c1: "crawl_and_summarize demo (demo_feed ! 0) (w0\<lparr>outside := 1\<rparr>)
              = (Inr (asc ''summary''), w0\<lparr>outside := 9\<rparr>)"
    unfolding e1 by (simp add: crawl_demo demo_links)
  have c2: "crawl_and_summarize demo (demo_feed ! 1) (w0\<lparr>outside := 9\<rparr>)
              = (Inr (SUMMARY_FAILED @ asc ''timeout''), w0\<lparr>outside := 15\<rparr>)"
    unfolding e2 by (simp add: crawl_demo)
  have c3: "crawl_and_summarize demo (demo_feed ! 2) (w0\<lparr>outside := 15\<rparr>)
              = (Inr (asc ''summary''), w0\<lparr>outside := 23\<rparr>)"
    unfolding e3 by (simp add: crawl_demo demo_links)
  from feed len e1 e2 e3 c1 c2 c3 search_three_entries [OF feed len e1 e2 e3 c1 c2 c3]
  show ?thesis by simp
qed

section \<open>Code that touches only the outside world\<close>

lemma only_outside_ret: "only_outside (ret x)"
  unfolding only_outside_def ret_def
proof
  fix w :: "'a world"
  have "w = w\<lparr>outside := outside w\<rparr>" by simp
  then show "\<exists>out. snd (Inr x, w) = w\<lparr>outside := out\<rparr>" by (simp add: exI [of _ "outside w"])
qed

lemma only_outside_raise: "only_outside (raise e)"
  unfolding only_outside_def raise_def
proof
  fix w :: "'a world"
  have "w = w\<lparr>outside := outside w\<rparr>" by simp
  then show "\<exists>out. snd (Inl e, w) = w\<lparr>outside := out\<rparr>" by (simp add: exI [of _ "outside w"])
qed

lemma only_outside_get_attr: "only_outside (get_attr name v)"
  by (cases v) (simp_all add: get_attr_def only_outside_ret only_outside_raise)

lemma only_outside_call: "only_outside (call f)"
  by (auto simp: only_outside_def call_def split: prod.splits)

lemma only_outside_bind:
  assumes "only_outside m" and "\<And>x. only_outside (f x)"
  shows "only_outside (bind m f)"
  unfolding only_outside_def
proof
  fix w
  from assms(1) obtain o1 where m: "snd (m w) = w\<lparr>outside := o1\<rparr>"
    unfolding only_outside_def by blast
  show "\<exists>out. snd (bind m f w) = w\<lparr>outside := out\<rparr>"
  proof (cases "fst (m w)")
    case (Inl e)
    with m have "bind m f w = (Inl e, w\<lparr>outside := o1\<rparr>)"
      by (cases "m w") (simp add: bind_def)
    then show ?thesis by auto
  next
    case (Inr x)
    from assms(2) obtain o2 where "snd (f x (w\<lparr>outside := o1\<rparr>)) = w\<lparr>outside := o1\<rparr>\<lparr>outside := o2\<rparr>"
      unfolding only_outside_def by blast
    with Inr m have "snd (bind m f w) = w\<lparr>outside := o2\<rparr>"
      by (cases "m w") (simp add: bind_def)
    then show ?thesis by blast
  qed
qed

lemma only_outside_try_except:
  assumes "only_outside m" and "\<And>e. only_outside (h e)"
  shows "only_outside (try_except m h)"
  unfolding only_outside_def
proof
  fix w
  from assms(1) obtain o1 where m: "snd (m w) = w\<lparr>outside := o1\<rparr>"
    unfolding only_outside_def by blast
  show "\<exists>out. snd (try_except m h w) = w\<lparr>outside := out\<rparr>"
  proof (cases "fst (m w)")
    case (Inr x)
    with m have "try_except m h w = (Inr x, w\<lparr>outside := o1\<rparr>)"
      by (cases "m w") (simp add: try_except_def)
    then show ?thesis by auto
  next
    case (Inl e)
    from assms(2) obtain o2 where "snd (h e (w\<lparr>outside := o1\<rparr>)) = w\<lparr>outside := o1\<rparr>\<lparr>outside := o2\<rparr>"
      unfolding only_outside_def by blast
    with Inl m have "snd (try_except m h w) = w\<lparr>outside := o2\<rparr>"
      by (cases "m w") (simp add: try_except_def)
    then show ?thesis by blast
  qed
qed

lemma only_outside_try_finally:
  assumes "only_outside m" and "only_outside fin"
  shows "only_outside (try_finally m fin)"
  unfolding only_outside_def
proof
  fix w
  from assms(1) obtain o1 where m: "snd (m w) = w\<lparr>outside := o1\<rparr>"
    unfolding only_outside_def by blast
  from assms(2) obtain o2 where f: "snd (fin (w\<lparr>outside := o1\<rparr>)) = w\<lparr>outside := o1\<rparr>\<lparr>outside := o2\<rparr>"
    unfolding only_outside_def by blast
  from m f have "snd (try_finally m fin w) = w\<lparr>outside := o2\<rparr>"
    by (cases "m w"; cases "fin (w\<lparr>outside := o1\<rparr>)")
      (auto simp: try_finally_def split: sum.splits)
  then show "\<exists>out. snd (try_finally m fin w) = w\<lparr>outside := out\<rparr>" by blast
qed

lemmas only_outside_intros =
  only_outside_ret only_outside_get_attr only_outside_call only_outside_bind
  only_outside_try_except only_outside_try_finally

lemma only_outside_crawl: "only_outside (crawl_and_summarize svc entry)"
  unfolding crawl_and_summarize_def summarize_page_def Let_def
  by (intro only_outside_intros)

lemma only_outside_process_entries: "only_outside (process_entries svc entries acc)"
  by (induction entries arbitrary: acc) (auto intro!: only_outside_intros only_outside_crawl)

lemma only_outside_search: "only_outside (search_and_process_news svc keyword)"
  unfolding search_and_process_news_def Let_def
  by (auto intro!: only_outside_intros only_outside_process_entries)

section \<open>The automatic collection\<close>

lemma search_frame:
  assumes "search_and_process_news svc keyword w = (r, w')"
  shows "session_state w' = session_state w \<and> notion_requests w' = notion_requests w \<and>
         ui w' = ui w \<and> widget_keys w' = widget_keys w"
proof -
  from only_outside_search [of svc keyword] obtain out
    where "snd (search_and_process_news svc keyword w) = w\<lparr>outside := out\<rparr>"
    unfolding only_outside_def by blast
  with assms show ?thesis by simp
qed

lemma feed_demo_zzz:
  "feedparser_parse demo (rss_url demo (asc ''zzz'')) n = (Inr [], Suc n)"
  by (simp add: demo_def rss_url_def asc_def)

lemma search_demo_zzz:
  "search_and_process_news demo (asc ''zzz'') w0 = (Inr (None, NO_RESULTS), w0\<lparr>outside := 1\<rparr>)"
  by (simp add: search_and_process_news_def bind_def call_def ret_def feed_demo_zzz w0_def)

text \<open>
  Claim C10. When \<open>search_and_process_news\<close> returns \<open>None\<close> as its results,
  \<open>auto_collect_news\<close> returns true in the world the search left, in which
  \<open>collected_news\<close> and the requests sent to the notes API are what they were: nothing is
  appended and no page is created. It returns false exactly when the body of its
  \<open>try\<close> raised, and it never raises itself.
\<close>

theorem auto_collect_news_no_articles:
  "(search_and_process_news svc keyword w = (Inr (None, text), w') \<longrightarrow>
      auto_collect_news svc keyword w = (Inr True, w') \<and>
      collected_news (session_state w') = collected_news (session_state w) \<and>
      notion_requests w' = notion_requests w) \<and>
   (fst (auto_collect_news svc keyword w) = Inr False
      \<longleftrightarrow> (\<exists>e. fst (auto_collect_body svc keyword w) = Inl e)) \<and>
   (\<exists>b. fst (auto_collect_news svc keyword w) = Inr b)"
proof (intro conjI impI)
  assume s: "search_and_process_news svc keyword w = (Inr (None, text), w')"
  then show "auto_collect_news svc keyword w = (Inr True, w')"
    by (simp add: auto_collect_news_def auto_collect_body_def try_except_def bind_def ret_def)
  from search_frame [OF s]
  show "collected_news (session_state w') = collected_news (session_state w)"
    and "notion_requests w' = notion_requests w"
    by simp_all
next
  show "fst (auto_collect_news svc keyword w) = Inr False
          \<longleftrightarrow> (\<exists>e. fst (auto_collect_body svc keyword w) = Inl e)"
    by (cases "auto_collect_body svc keyword w"; cases "fst (auto_collect_body svc keyword w)")
      (auto simp: auto_collect_news_def try_except_def bind_def ret_def st_error_def
        auto_collect_body_def split: prod.splits sum.splits)
next
  show "\<exists>b. fst (auto_collect_news svc keyword w) = Inr b"
    by (cases "auto_collect_body svc keyword w"; cases "fst (auto_collect_body svc keyword w)")
      (auto simp: auto_collect_news_def try_except_def bind_def ret_def st_error_def)
qed

theorem auto_collect_news_no_articles_witness:
  "search_and_process_news demo (asc ''zzz'') w0 = (Inr (None, NO_RESULTS), w0\<lparr>outside := 1\<rparr>) \<and>
   auto_collect_news demo (asc ''zzz'') w0 = (Inr True, w0\<lparr>outside := 1\<rparr>) \<and>
   collected_news (session_state (w0\<lparr>outside := 1\<rparr>)) = collected_news (session_state w0) \<and>
   notion_requests (w0\<lparr>outside := 1\<rparr>) = notion_requests w0"
  using search_demo_zzz
    auto_collect_news_no_articles [of demo "asc ''zzz''" w0 NO_RESULTS "w0\<lparr>outside := 1\<rparr>"]
  by blast

section \<open>Executions of the script\<close>

subsection \<open>What an execution leaves alone\<close>

lemma keeps_ret: "keeps f (ret x)"
  by (simp add: keeps_def ret_def)

lemma keeps_raise: "keeps f (raise e)"
  by (simp add: keeps_def raise_def)

lemma keeps_bind:
  assumes "keeps f m" and "\<And>x. keeps f (g x)"
  shows "keeps f (bind m g)"
  unfolding keeps_def
proof
  fix w
  from assms(1) have m: "f (snd (m w)) = f w" by (simp add: keeps_def)
  show "f (snd (bind m g w)) = f w"
  proof (cases "m w")
    case (Pair r w1)
    with m have w1: "f w1 = f w" by simp
    show ?thesis
    proof (cases r)
      case (Inl e)
      with Pair w1 show ?thesis by (simp add: bind_def)
    next
      case (Inr x)
      from assms(2) have "f (snd (g x w1)) = f w1" by (simp add: keeps_def)
      with Inr Pair w1 show ?thesis by (simp add: bind_def)
    qed
  qed
qed

lemma keeps_try_except:
  assumes "keeps f m" and "\<And>e. keeps f (h e)"
  shows "keeps f (try_except m h)"
  unfolding keeps_def
proof
  fix w
  from assms(1) have m: "f (snd (m w)) = f w" by (simp add: keeps_def)
  show "f (snd (try_except m h w)) = f w"
  proof (cases "m w")
    case (Pair r w1)
    with m have w1: "f w1 = f w" by simp
    show ?thesis
    proof (cases r)
      case (Inr x)
      with Pair w1 show ?thesis by (simp add: try_except_def)
    next
      case (Inl e)
      from assms(2) have "f (snd (h e w1)) = f w1" by (simp add: keeps_def)
      with Inl Pair w1 show ?thesis by (simp add: try_except_def)
    qed
  qed
qed

lemma keeps_only_outside:
  assumes "only_outside p" and "\<And>w out. f (w\<lparr>outside := out\<rparr>) = f w"
  shows "keeps f p"
  unfolding keeps_def
proof
  fix w
  from assms(1) obtain out where "snd (p w) = w\<lparr>outside := out\<rparr>"
    unfolding only_outside_def by blast
  with assms(2) show "f (snd (p w)) = f w" by simp
qed

lemma rest_outside [simp]: "rest_of_session (w\<lparr>outside := out\<rparr>) = rest_of_session w"
  by (simp add: rest_of_session_def)

lemma keeps_rest_primitives:
  "keeps rest_of_session (call c)"
  "keeps rest_of_session (read_clock k)"
  "keeps rest_of_session (st_error msg)"
  "keeps rest_of_session (st_toast msg)"
  "keeps rest_of_session (st_button svc ev key)"
  "keeps rest_of_session (st_columns svc n)"
  "keeps rest_of_session begin_run"
  "keeps rest_of_session get_messages"
  "keeps rest_of_session (append_message m)"
  "keeps rest_of_session (notion_create svc req)"
  by (simp_all add: keeps_def rest_of_session_def call_def read_clock_def st_error_def
      st_toast_def st_button_def st_columns_def begin_run_def get_messages_def
      append_message_def notion_create_def ret_def raise_def split: prod.splits)

lemmas keeps_intros = keeps_ret keeps_raise keeps_bind keeps_try_except keeps_rest_primitives

lemma keeps_rest_save: "keeps rest_of_session (save_to_notion svc title summary link)"
  unfolding save_to_notion_def by (intro keeps_intros)

lemma keeps_rest_buttons: "keeps rest_of_session (render_buttons svc ev message i arts)"
  by (induction arts arbitrary: i) (auto intro!: keeps_intros keeps_rest_save)

lemma keeps_rest_message: "keeps rest_of_session (render_message svc ev message)"
  unfolding render_message_def
  by (auto intro!: keeps_intros keeps_rest_buttons split: option.splits)

lemma keeps_rest_messages: "keeps rest_of_session (render_messages svc ev msgs)"
  by (induction msgs) (auto intro!: keeps_intros keeps_rest_message)

lemma keeps_rest_intent: "keeps rest_of_session (check_news_intent svc user_input history)"
  unfolding check_news_intent_def Let_def by (intro keeps_intros)

lemma keeps_rest_chat: "keeps rest_of_session (general_chat_response svc user_input history)"
  unfolding general_chat_response_def Let_def by (intro keeps_intros)

lemma keeps_rest_search: "keeps rest_of_session (search_and_process_news svc keyword)"
  by (rule keeps_only_outside [OF only_outside_search]) simp

lemma keeps_rest_chat_input: "keeps rest_of_session (chat_input svc ev)"
  unfolding chat_input_def Let_def
  by (auto intro!: keeps_intros keeps_rest_intent keeps_rest_chat keeps_rest_search
      split: event.splits prod.splits)

lemma keeps_rest_main: "keeps rest_of_session (main_area svc ev)"
  unfolding main_area_def
  by (intro keeps_intros keeps_rest_messages keeps_rest_chat_input)

subsection \<open>The two courses of an execution\<close>

lemma run_script_submit:
  assumes "search_keyword \<noteq> []"
  shows "run_script svc (ScheduleSubmit schedule_type search_keyword hour minute) w =
           (Inr (),
            w\<lparr>widget_keys := [],
              session_state := (session_state w)
                \<lparr>schedules := schedules (session_state w) @
                   [\<lparr>s_id = length (schedules (session_state w)), s_type = schedule_type,
                     s_keyword = search_keyword, s_hour = hour, s_minute = minute,
                     s_active = True\<rparr>]\<rparr>\<rparr>)"
  using assms
  by (simp add: run_script_def sidebar_def begin_run_def get_schedules_def append_schedule_def
      bind_def ret_def)

lemma run_script_other:
  assumes "\<And>schedule_type search_keyword hour minute.
             ev = ScheduleSubmit schedule_type search_keyword hour minute \<Longrightarrow> search_keyword = []"
  shows "run_script svc ev w = main_area svc ev (w\<lparr>widget_keys := []\<rparr>)"
  using assms
  by (cases ev) (simp_all add: run_script_def sidebar_def begin_run_def bind_def ret_def)

lemma run_script_rest:
  assumes "\<And>schedule_type search_keyword hour minute.
             ev = ScheduleSubmit schedule_type search_keyword hour minute \<Longrightarrow> search_keyword = []"
  shows "rest_of_session (snd (run_script svc ev w)) = rest_of_session w"
proof -
  have "rest_of_session (snd (main_area svc ev (w\<lparr>widget_keys := []\<rparr>)))
          = rest_of_session (w\<lparr>widget_keys := []\<rparr>)"
    using keeps_rest_main [of svc ev] by (simp add: keeps_def)
  then show ?thesis
    by (simp add: run_script_other [OF assms] rest_of_session_def)
qed

text \<open>Whatever the event, the execution either appends one schedule or changes none.\<close>

lemma run_script_schedules:
  "schedules (session_state (snd (run_script svc ev w))) = schedules (session_state w) \<or>
   (\<exists>schedule_type search_keyword hour minute.
      schedules (session_state (snd (run_script svc ev w))) =
        schedules (session_state w) @
          [\<lparr>s_id = length (schedules (session_state w)), s_type = schedule_type,
            s_keyword = search_keyword, s_hour = hour, s_minute = minute, s_active = True\<rparr>])"
proof (cases "\<exists>schedule_type search_keyword hour minute.
                ev = ScheduleSubmit schedule_type search_keyword hour minute \<and> search_keyword \<noteq> []")
  case True
  then obtain schedule_type search_keyword hour minute
    where "ev = ScheduleSubmit schedule_type search_keyword hour minute" "search_keyword \<noteq> []"
    by blast
  then show ?thesis by (simp add: run_script_submit)
next
  case False
  then have "rest_of_session (snd (run_script svc ev w)) = rest_of_session w"
    by (intro run_script_rest) blast
  then show ?thesis by (simp add: rest_of_session_def)
qed

lemma reachable_ids:
  assumes "reachable svc w"
  shows "map s_id (schedules (session_state w)) = [0..<length (schedules (session_state w))]"
  using assms
proof (induction rule: reachable.induct)
  case (new_session w)
  then show ?case by (simp add: empty_session_def)
next
  case (script_run w ev)
  from run_script_schedules [of svc ev w] script_run.IH show ?case by auto
qed

lemma reachable_collected:
  assumes "reachable svc w"
  shows "collected_news (session_state w) = []"
  using assms
proof (induction rule: reachable.induct)
  case (new_session w)
  then show ?case by (simp add: empty_session_def)
next
  case (script_run w ev)
  show ?case
  proof (cases "\<exists>schedule_type search_keyword hour minute.
                  ev = ScheduleSubmit schedule_type search_keyword hour minute \<and> search_keyword \<noteq> []")
    case True
    then obtain schedule_type search_keyword hour minute
      where "ev = ScheduleSubmit schedule_type search_keyword hour minute" "search_keyword \<noteq> []"
      by blast
    with script_run.IH show ?thesis by (simp add: run_script_submit)
  next
    case False
    then have "rest_of_session (snd (run_script svc ev w)) = rest_of_session w"
      by (intro run_script_rest) blast
    with script_run.IH show ?thesis by (simp add: rest_of_session_def)
  qed
qed

lemma reachable_w_scheduled: "reachable demo w_scheduled"
  unfolding w_scheduled_def
  by (rule reachable.script_run, rule reachable.new_session) (simp add: w0_def)

lemma schedules_w_scheduled:
  "schedules (session_state w_scheduled) =
     [\<lparr>s_id = 0, s_type = Daily, s_keyword = asc ''ai'', s_hour = 9, s_minute = 0,
       s_active = True\<rparr>]"
  by (simp add: w_scheduled_def run_script_submit asc_def w0_def empty_session_def)

section \<open>The schedule form\<close>

text \<open>
  Claim C7. In a reachable state, a submission of the schedule form with a non-empty
  keyword ends normally and appends exactly one entry to \<open>schedules\<close>; the entry is
  active and its id is greater than the id of every entry already there; the chat
  history, \<open>collected_news\<close> and \<open>last_check_time\<close> are not changed.
\<close>

theorem schedule_submit:
  assumes "reachable svc w" and "search_keyword \<noteq> []"
  shows "\<exists>w' new.
           run_script svc (ScheduleSubmit schedule_type search_keyword hour minute) w
             = (Inr (), w') \<and>
           schedules (session_state w') = schedules (session_state w) @ [new] \<and>
           s_active new \<and>
           (\<forall>s \<in> set (schedules (session_state w)). s_id s < s_id new) \<and>
           messages (session_state w') = messages (session_state w) \<and>
           collected_news (session_state w') = collected_news (session_state w) \<and>
           last_check_time (session_state w') = last_check_time (session_state w)"
proof -
  let ?new = "\<lparr>s_id = length (schedules (session_state w)), s_type = schedule_type,
                s_keyword = search_keyword, s_hour = hour, s_minute = minute,
                s_active = True\<rparr>"
  have ids: "\<forall>s \<in> set (schedules (session_state w)). s_id s < s_id ?new"
  proof
    fix s assume "s \<in> set (schedules (session_state w))"
    then have "s_id s \<in> set (map s_id (schedules (session_state w)))" by simp
    with reachable_ids [OF assms(1)] have "s_id s \<in> set [0..<length (schedules (session_state w))]"
      by simp
    then show "s_id s < s_id ?new" by simp
  qed
  from run_script_submit [OF assms(2), of svc schedule_type hour minute w] ids
  show ?thesis by auto
qed

theorem schedule_submit_witness:
  "reachable demo w_scheduled \<and> asc ''news'' \<noteq> [] \<and>
   (\<exists>w' new.
      run_script demo (ScheduleSubmit SpecificWeekday (asc ''news'') 18 30) w_scheduled = (Inr (), w') \<and>
      schedules (session_state w') = schedules (session_state w_scheduled) @ [new] \<and>
      s_active new \<and>
      (\<forall>s \<in> set (schedules (session_state w_scheduled)). s_id s < s_id new) \<and>
      messages (session_state w') = messages (session_state w_scheduled) \<and>
      collected_news (session_state w') = collected_news (session_state w_scheduled) \<and>
      last_check_time (session_state w') = last_check_time (session_state w_scheduled))"
proof -
  have k: "asc ''news'' \<noteq> []" by (simp add: asc_def)
  from reachable_w_scheduled k schedule_submit [OF reachable_w_scheduled k, of SpecificWeekday 18 30]
  show ?thesis by blast
qed

section \<open>The schedules are inert\<close>

lemma with_schedules_simps [simp]:
  "with_schedules ss (with_schedules ss' w) = with_schedules ss w"
  "with_schedules ss (w\<lparr>outside := out\<rparr>) = (with_schedules ss w)\<lparr>outside := out\<rparr>"
  "with_schedules ss (w\<lparr>ui := u\<rparr>) = (with_schedules ss w)\<lparr>ui := u\<rparr>"
  "with_schedules ss (w\<lparr>widget_keys := k\<rparr>) = (with_schedules ss w)\<lparr>widget_keys := k\<rparr>"
  "with_schedules ss (w\<lparr>notion_requests := n\<rparr>) = (with_schedules ss w)\<lparr>notion_requests := n\<rparr>"
  "outside (with_schedules ss w) = outside w"
  "ui (with_schedules ss w) = ui w"
  "widget_keys (with_schedules ss w) = widget_keys w"
  "notion_requests (with_schedules ss w) = notion_requests w"
  "messages (session_state (with_schedules ss w)) = messages (session_state w)"
  by (simp_all add: with_schedules_def)

lemma sched_indep_ret: "sched_indep (ret x)"
  by (simp add: sched_indep_def ret_def)

lemma sched_indep_raise: "sched_indep (raise e)"
  by (simp add: sched_indep_def raise_def)

lemma sched_indep_bind:
  assumes "sched_indep m" and "\<And>x. sched_indep (g x)"
  shows "sched_indep (bind m g)"
  unfolding sched_indep_def
proof (intro allI)
  fix ss w
  obtain r w1 where mw: "m w = (r, w1)" by (cases "m w")
  with assms(1) have ms: "m (with_schedules ss w) = (r, with_schedules ss w1)"
    by (simp add: sched_indep_def)
  show "bind m g (with_schedules ss w) = (fst (bind m g w), with_schedules ss (snd (bind m g w)))"
  proof (cases r)
    case (Inl e)
    with mw ms show ?thesis by (simp add: bind_def)
  next
    case (Inr x)
    from assms(2) have "g x (with_schedules ss w1) = (fst (g x w1), with_schedules ss (snd (g x w1)))"
      by (simp add: sched_indep_def)
    with Inr mw ms show ?thesis by (simp add: bind_def)
  qed
qed

lemma sched_indep_try_except:
  assumes "sched_indep m" and "\<And>e. sched_indep (h e)"
  shows "sched_indep (try_except m h)"
  unfolding sched_indep_def
proof (intro allI)
  fix ss w
  obtain r w1 where mw: "m w = (r, w1)" by (cases "m w")
  with assms(1) have ms: "m (with_schedules ss w) = (r, with_schedules ss w1)"
    by (simp add: sched_indep_def)
  show "try_except m h (with_schedules ss w)
          = (fst (try_except m h w), with_schedules ss (snd (try_except m h w)))"
  proof (cases r)
    case (Inr x)
    with mw ms show ?thesis by (simp add: try_except_def)
  next
    case (Inl e)
    from assms(2) have "h e (with_schedules ss w1) = (fst (h e w1), with_schedules ss (snd (h e w1)))"
      by (simp add: sched_indep_def)
    with Inl mw ms show ?thesis by (simp add: try_except_def)
  qed
qed

lemma sched_indep_try_finally:
  assumes "sched_indep m" and "sched_indep fin"
  shows "sched_indep (try_finally m fin)"
  unfolding sched_indep_def
proof (intro allI)
  fix ss w
  obtain r w1 where mw: "m w = (r, w1)" by (cases "m w")
  with assms(1) have ms: "m (with_schedules ss w) = (r, with_schedules ss w1)"
    by (simp add: sched_indep_def)
  obtain r2 w2 where fw: "fin w1 = (r2, w2)" by (cases "fin w1")
  with assms(2) have fs: "fin (with_schedules ss w1) = (r2, with_schedules ss w2)"
    by (simp add: sched_indep_def)
  show "try_finally m fin (with_schedules ss w)
          = (fst (try_finally m fin w), with_schedules ss (snd (try_finally m fin w)))"
    by (cases r2) (simp_all add: try_finally_def mw ms fw fs)
qed

lemma sched_indep_primitives:
  "sched_indep (call c)"
  "sched_indep (read_clock k)"
  "sched_indep (st_error msg)"
  "sched_indep (st_toast msg)"
  "sched_indep (st_button svc ev key)"
  "sched_indep (st_columns svc n)"
  "sched_indep get_messages"
  "sched_indep (notion_create svc req)"
  by (simp_all add: sched_indep_def call_def read_clock_def st_error_def st_toast_def
      st_button_def st_columns_def get_messages_def notion_create_def ret_def raise_def
      split: prod.splits)

lemma sched_indep_get_attr: "sched_indep (get_attr name v)"
  by (cases v) (simp_all add: get_attr_def sched_indep_ret sched_indep_raise)

lemma sched_indep_append_message: "sched_indep (append_message m)"
  by (simp add: sched_indep_def append_message_def with_schedules_def)

lemmas sched_indep_intros =
  sched_indep_ret sched_indep_raise sched_indep_get_attr sched_indep_bind
  sched_indep_try_except sched_indep_try_finally sched_indep_primitives
  sched_indep_append_message

lemma sched_indep_save: "sched_indep (save_to_notion svc title summary link)"
  unfolding save_to_notion_def by (intro sched_indep_intros)

lemma sched_indep_buttons: "sched_indep (render_buttons svc ev message i arts)"
  by (induction arts arbitrary: i) (auto intro!: sched_indep_intros sched_indep_save)

lemma sched_indep_message: "sched_indep (render_message svc ev message)"
  unfolding render_message_def
  by (auto intro!: sched_indep_intros sched_indep_buttons split: option.splits)

lemma sched_indep_messages: "sched_indep (render_messages svc ev msgs)"
  by (induction msgs) (auto intro!: sched_indep_intros sched_indep_message)

lemma sched_indep_intent: "sched_indep (check_news_intent svc user_input history)"
  unfolding check_news_intent_def Let_def by (intro sched_indep_intros)

lemma sched_indep_chat: "sched_indep (general_chat_response svc user_input history)"
  unfolding general_chat_response_def Let_def by (intro sched_indep_intros)

lemma sched_indep_crawl: "sched_indep (crawl_and_summarize svc entry)"
  unfolding crawl_and_summarize_def summarize_page_def Let_def by (intro sched_indep_intros)

lemma sched_indep_entries: "sched_indep (process_entries svc entries acc)"
  by (induction entries arbitrary: acc) (auto intro!: sched_indep_intros sched_indep_crawl)

lemma sched_indep_search: "sched_indep (search_and_process_news svc keyword)"
  unfolding search_and_process_news_def Let_def
  by (auto intro!: sched_indep_intros sched_indep_entries)

lemma sched_indep_chat_input: "sched_indep (chat_input svc ev)"
  unfolding chat_input_def Let_def
  by (auto intro!: sched_indep_intros sched_indep_intent sched_indep_chat sched_indep_search
      split: event.splits prod.splits)

lemma sched_indep_main: "sched_indep (main_area svc ev)"
  unfolding main_area_def
  by (intro sched_indep_intros sched_indep_messages sched_indep_chat_input)

lemma run_script_indep:
  "fst (run_script svc ev (with_schedules ss w)) = fst (run_script svc ev w) \<and>
   with_schedules [] (snd (run_script svc ev (with_schedules ss w)))
     = with_schedules [] (snd (run_script svc ev w))"
proof (cases "\<exists>schedule_type search_keyword hour minute.
                ev = ScheduleSubmit schedule_type search_keyword hour minute \<and> search_keyword \<noteq> []")
  case True
  then obtain schedule_type search_keyword hour minute
    where "ev = ScheduleSubmit schedule_type search_keyword hour minute" "search_keyword \<noteq> []"
    by blast
  then show ?thesis by (simp add: run_script_submit with_schedules_def)
next
  case False
  then have other: "\<And>schedule_type search_keyword hour minute.
             ev = ScheduleSubmit schedule_type search_keyword hour minute \<Longrightarrow> search_keyword = []"
    by blast
  from sched_indep_main [of svc ev]
  have "main_area svc ev (with_schedules ss (w\<lparr>widget_keys := []\<rparr>)) =
          (fst (main_area svc ev (w\<lparr>widget_keys := []\<rparr>)),
           with_schedules ss (snd (main_area svc ev (w\<lparr>widget_keys := []\<rparr>))))"
    unfolding sched_indep_def by blast
  then have "main_area svc ev ((with_schedules ss w)\<lparr>widget_keys := []\<rparr>) =
          (fst (main_area svc ev (w\<lparr>widget_keys := []\<rparr>)),
           with_schedules ss (snd (main_area svc ev (w\<lparr>widget_keys := []\<rparr>))))"
    by simp
  then show ?thesis by (simp add: run_script_other [OF other])
qed

text \<open>
  Claim C8. No execution of the script calls \<open>auto_collect_news\<close> or reads a schedule
  other than to append one: in every reachable state \<open>collected_news\<close> is empty, and
  an execution started with any other list of schedules ends the same way and leaves the
  same chat history, the same \<open>collected_news\<close>, the same requests to the notes API,
  the same output and the same outside world.
\<close>

theorem schedules_inert:
  "(reachable svc w \<longrightarrow> collected_news (session_state w) = []) \<and>
   fst (run_script svc ev (with_schedules ss w)) = fst (run_script svc ev w) \<and>
   messages (session_state (snd (run_script svc ev (with_schedules ss w))))
     = messages (session_state (snd (run_script svc ev w))) \<and>
   collected_news (session_state (snd (run_script svc ev (with_schedules ss w))))
     = collected_news (session_state (snd (run_script svc ev w))) \<and>
   notion_requests (snd (run_script svc ev (with_schedules ss w)))
     = notion_requests (snd (run_script svc ev w)) \<and>
   ui (snd (run_script svc ev (with_schedules ss w))) = ui (snd (run_script svc ev w)) \<and>
   outside (snd (run_script svc ev (with_schedules ss w)))
     = outside (snd (run_script svc ev w))"
proof -
  let ?a = "snd (run_script svc ev (with_schedules ss w))"
  let ?b = "snd (run_script svc ev w)"
  from run_script_indep [of svc ev ss w]
  have r: "fst (run_script svc ev (with_schedules ss w)) = fst (run_script svc ev w)"
    and eq: "with_schedules [] ?a = with_schedules [] ?b"
    by simp_all
  from eq have "messages (session_state (with_schedules [] ?a))
                  = messages (session_state (with_schedules [] ?b))"
    by simp
  then have m: "messages (session_state ?a) = messages (session_state ?b)"
    by simp
  from eq have "collected_news (session_state (with_schedules [] ?a))
                  = collected_news (session_state (with_schedules [] ?b))"
    by simp
  then have c: "collected_news (session_state ?a) = collected_news (session_state ?b)"
    by (simp add: with_schedules_def)
  from eq have "notion_requests (with_schedules [] ?a) = notion_requests (with_schedules [] ?b)"
    by simp
  then have n: "notion_requests ?a = notion_requests ?b"
    by simp
  from eq have "ui (with_schedules [] ?a) = ui (with_schedules [] ?b)"
    by simp
  then have u: "ui ?a = ui ?b"
    by simp
  from eq have "outside (with_schedules [] ?a) = outside (with_schedules [] ?b)"
    by simp
  then have out: "outside ?a = outside ?b"
    by simp
  from reachable_collected r m c n u out show ?thesis by blast
qed

theorem schedules_inert_witness:
  "reachable demo w_scheduled \<and> collected_news (session_state w_scheduled) = [] \<and>
   fst (run_script demo (ChatSubmit (asc ''ai'')) (with_schedules [] w_scheduled))
     = fst (run_script demo (ChatSubmit (asc ''ai'')) w_scheduled) \<and>
   messages (session_state (snd (run_script demo (ChatSubmit (asc ''ai'')) (with_schedules [] w_scheduled))))
     = messages (session_state (snd (run_script demo (ChatSubmit (asc ''ai'')) w_scheduled)))"
  using reachable_w_scheduled schedules_inert [of demo w_scheduled "ChatSubmit (asc ''ai'')" "[]"]
  by blast

section \<open>The save buttons\<close>

subsection \<open>The buttons of one message\<close>

lemma fst_button_key [simp]: "fst (button_key message i) = i"
  by (simp add: button_key_def)

lemma button_key_inj [simp]: "button_key message i = button_key message j \<longleftrightarrow> i = j"
  by (auto simp: button_key_def)

lemma save_to_notion_requests:
  "\<exists>r w'. save_to_notion svc title summary link w = (Inr r, w') \<and>
     notion_requests w' = notion_requests w @ [notion_page svc title summary link] \<and>
     widget_keys w' = widget_keys w"
  by (cases "notion_pages_create svc (notion_page svc title summary link) (outside w)";
      cases "fst (notion_pages_create svc (notion_page svc title summary link) (outside w))")
    (auto simp: save_to_notion_def notion_create_def try_except_def bind_def call_def ret_def
      st_error_def)

text \<open>Buttons other than the clicked one only register their keys.\<close>

lemma render_buttons_unclicked:
  assumes "key \<notin> button_key message ` {i..<i + length arts}"
    and "button_key message ` {i..<i + length arts} \<inter> set (widget_keys w) = {}"
  shows "render_buttons svc (SaveClick key) message i arts w =
           (Inr (), w\<lparr>widget_keys :=
                        widget_keys w @ map (button_key message) [i..<i + length arts]\<rparr>)"
  using assms
proof (induction arts arbitrary: i w)
  case Nil
  show ?case by (simp add: ret_def)
next
  case (Cons a arts)
  let ?k = "button_key message i"
  let ?w = "w\<lparr>widget_keys := widget_keys w @ [?k]\<rparr>"
  have mem: "i \<in> {i..<i + length (a # arts)}" by simp
  from Cons.prems(1) mem have k1: "key \<noteq> ?k" by blast
  from Cons.prems(2) mem have k2: "?k \<notin> set (widget_keys w)" by blast
  have sub: "{Suc i..<Suc i + length arts} \<subseteq> {i..<i + length (a # arts)}" by auto
  from Cons.prems(1) sub have p1: "key \<notin> button_key message ` {Suc i..<Suc i + length arts}"
    by blast
  from Cons.prems(2) sub
  have "button_key message ` {Suc i..<Suc i + length arts} \<inter> set (widget_keys w) = {}"
    by blast
  moreover have "?k \<notin> button_key message ` {Suc i..<Suc i + length arts}"
    by auto
  ultimately have p2: "button_key message ` {Suc i..<Suc i + length arts} \<inter> set (widget_keys ?w) = {}"
    by auto
  have upt: "[i..<i + length (a # arts)] = i # [Suc i..<Suc i + length arts]"
    by (simp add: upt_conv_Cons del: upt_Suc)
  have step: "render_buttons svc (SaveClick key) message i (a # arts) w
          = render_buttons svc (SaveClick key) message (Suc i) arts ?w"
    using k1 k2 by (simp add: st_button_def bind_def ret_def)
  show ?case
    unfolding step Cons.IH [OF p1 p2] upt by simp
qed

text \<open>Once the clicked key is registered, no button answers to the click any more.\<close>

lemma render_buttons_after:
  assumes "key \<in> set (widget_keys w)"
  shows "\<exists>ks. snd (render_buttons svc (SaveClick key) message i arts w) = w\<lparr>widget_keys := ks\<rparr> \<and>
              key \<in> set ks"
  using assms
proof (induction arts arbitrary: i w)
  case Nil
  have "w = w\<lparr>widget_keys := widget_keys w\<rparr>" by simp
  with Nil show ?case by (auto simp: ret_def intro: exI [of _ "widget_keys w"])
next
  case (Cons a arts)
  let ?k = "button_key message i"
  show ?case
  proof (cases "?k \<in> set (widget_keys w)")
    case True
    have "w = w\<lparr>widget_keys := widget_keys w\<rparr>" by simp
    with True Cons.prems show ?thesis
      by (auto simp: st_button_def bind_def intro: exI [of _ "widget_keys w"])
  next
    case False
    let ?w = "w\<lparr>widget_keys := widget_keys w @ [?k]\<rparr>"
    from False Cons.prems have ne: "key \<noteq> ?k" by auto
    have step: "render_buttons svc (SaveClick key) message i (a # arts) w
            = render_buttons svc (SaveClick key) message (Suc i) arts ?w"
      using False ne by (simp add: st_button_def bind_def ret_def)
    from Cons.prems have "key \<in> set (widget_keys ?w)" by simp
    from Cons.IH [OF this, of "Suc i"] obtain ks
      where "snd (render_buttons svc (SaveClick key) message (Suc i) arts ?w) = ?w\<lparr>widget_keys := ks\<rparr>"
        and "key \<in> set ks"
      by blast
    with step show ?thesis by auto
  qed
qed

text \<open>The clicked button saves its article, once.\<close>

lemma render_buttons_clicked:
  assumes "i \<le> j" and "j < i + length arts"
    and "button_key message ` {i..j} \<inter> set (widget_keys w) = {}"
  shows "notion_requests (snd (render_buttons svc (SaveClick (button_key message j)) message i arts w))
           = notion_requests w @
               [notion_page svc (a_title (arts ! (j - i))) (a_summary (arts ! (j - i)))
                  (a_link (arts ! (j - i)))] \<and>
         button_key message j
           \<in> set (widget_keys (snd (render_buttons svc (SaveClick (button_key message j)) message i arts w)))"
  using assms
proof (induction arts arbitrary: i w)
  case Nil
  then show ?case by simp
next
  case (Cons a arts)
  let ?key = "button_key message j"
  let ?k = "button_key message i"
  let ?w = "w\<lparr>widget_keys := widget_keys w @ [?k]\<rparr>"
  have "i \<in> {i..j}" using Cons.prems(1) by simp
  with Cons.prems(3) have fresh: "?k \<notin> set (widget_keys w)" by blast
  show ?case
  proof (cases "i = j")
    case True
    have b: "st_button svc (SaveClick ?key) ?k w = (Inr True, ?w)"
      using fresh True by (simp add: st_button_def)
    from save_to_notion_requests [of svc "a_title a" "a_summary a" "a_link a" ?w]
    obtain r wb where
      s: "save_to_notion svc (a_title a) (a_summary a) (a_link a) ?w = (Inr r, wb)"
      and n: "notion_requests wb = notion_requests ?w @
                [notion_page svc (a_title a) (a_summary a) (a_link a)]"
      and k: "widget_keys wb = widget_keys ?w"
      by blast
    let ?wc = "wb\<lparr>ui := ui wb @ [StToast SAVED]\<rparr>"
    have step: "render_buttons svc (SaveClick ?key) message i (a # arts) w
            = render_buttons svc (SaveClick ?key) message (Suc i) arts ?wc"
      by (simp add: b s bind_def st_toast_def)
    have "?key \<in> set (widget_keys ?wc)" using k True by simp
    from render_buttons_after [OF this, of svc message "Suc i" arts] obtain ks
      where "snd (render_buttons svc (SaveClick ?key) message (Suc i) arts ?wc)
               = ?wc\<lparr>widget_keys := ks\<rparr>" and "?key \<in> set ks"
      by blast
    with step n True show ?thesis by simp
  next
    case False
    with Cons.prems(1) have lt: "Suc i \<le> j" by simp
    from False have ne: "?key \<noteq> ?k" by simp
    have step: "render_buttons svc (SaveClick ?key) message i (a # arts) w
            = render_buttons svc (SaveClick ?key) message (Suc i) arts ?w"
      using fresh ne by (simp add: st_button_def bind_def ret_def)
    from Cons.prems(2) have len: "j < Suc i + length arts" by simp
    have "{Suc i..j} \<subseteq> {i..j}" by auto
    with Cons.prems(3)
    have "button_key message ` {Suc i..j} \<inter> set (widget_keys w) = {}"
      by blast
    moreover have "?k \<notin> button_key message ` {Suc i..j}" by auto
    ultimately have p3: "button_key message ` {Suc i..j} \<inter> set (widget_keys ?w) = {}"
      by auto
    from lt have "j - i = Suc (j - Suc i)" by arith
    then have idx: "(a # arts) ! (j - i) = arts ! (j - Suc i)" by simp
    from Cons.IH [OF lt len p3] show ?thesis
      unfolding step idx by simp
  qed
qed

subsection \<open>The buttons of the chat history\<close>

lemma message_keys_arts:
  assumes "m_role message = Assistant" and "m_news_results message = Some arts"
  shows "message_keys message = map (button_key message) [0..<length arts]"
  using assms by (simp add: message_keys_def)

lemma keys_same:
  assumes "key \<in> set (widget_keys w)"
  shows "\<exists>ks. w = w\<lparr>widget_keys := ks\<rparr> \<and> key \<in> set ks"
  using assms by (intro exI [of _ "widget_keys w"]) simp

lemma render_message_unclicked:
  assumes "key \<notin> set (message_keys message)"
    and "set (message_keys message) \<inter> set (widget_keys w) = {}"
    and "m_role message = Assistant \<longrightarrow> m_news_results message \<noteq> Some []"
  shows "render_message svc (SaveClick key) message w =
           (Inr (), w\<lparr>widget_keys := widget_keys w @ message_keys message\<rparr>)"
proof (cases "m_news_results message")
  case None
  then show ?thesis by (simp add: render_message_def message_keys_def ret_def)
next
  case (Some arts)
  show ?thesis
  proof (cases "m_role message = Assistant")
    case False
    with Some show ?thesis by (simp add: render_message_def message_keys_def ret_def)
  next
    case True
    with Some assms(3) have ne: "arts \<noteq> []" by simp
    have keys: "message_keys message = map (button_key message) [0..<0 + length arts]"
      using message_keys_arts [OF True Some] by simp
    from assms(1) keys have p1: "key \<notin> button_key message ` {0..<0 + length arts}"
      by simp
    from assms(2) keys
    have p2: "button_key message ` {0..<0 + length arts} \<inter> set (widget_keys w) = {}"
      by simp
    have "render_message svc (SaveClick key) message w
            = render_buttons svc (SaveClick key) message 0 arts w"
      using Some True ne by (simp add: render_message_def st_columns_def bind_def ret_def)
    with render_buttons_unclicked [OF p1 p2, of svc] keys show ?thesis by simp
  qed
qed

lemma render_message_after:
  assumes "key \<in> set (widget_keys w)"
  shows "\<exists>ks. snd (render_message svc (SaveClick key) message w) = w\<lparr>widget_keys := ks\<rparr> \<and>
              key \<in> set ks"
proof -
  note same = keys_same [OF assms]
  show ?thesis
  proof (cases "m_news_results message")
    case None
    with same show ?thesis by (simp add: render_message_def ret_def)
  next
    case (Some arts)
    show ?thesis
    proof (cases "m_role message = Assistant \<and> arts \<noteq> []")
      case False
      with Some same show ?thesis
        by (auto simp: render_message_def st_columns_def bind_def ret_def raise_def)
    next
      case True
      then have "render_message svc (SaveClick key) message w
              = render_buttons svc (SaveClick key) message 0 arts w"
        using Some by (simp add: render_message_def st_columns_def bind_def ret_def)
      with render_buttons_after [OF assms, of svc message 0 arts] show ?thesis by simp
    qed
  qed
qed

lemma render_messages_after:
  assumes "key \<in> set (widget_keys w)"
  shows "\<exists>ks. snd (render_messages svc (SaveClick key) msgs w) = w\<lparr>widget_keys := ks\<rparr> \<and>
              key \<in> set ks"
  using assms
proof (induction msgs arbitrary: w)
  case Nil
  from keys_same [OF Nil] show ?case by (simp add: ret_def)
next
  case (Cons m msgs)
  from render_message_after [OF Cons.prems, of svc m] obtain ks
    where m: "snd (render_message svc (SaveClick key) m w) = w\<lparr>widget_keys := ks\<rparr>"
      and k: "key \<in> set ks"
    by blast
  show ?case
  proof (cases "fst (render_message svc (SaveClick key) m w)")
    case (Inl e)
    with m k show ?thesis
      by (cases "render_message svc (SaveClick key) m w") (auto simp: bind_def)
  next
    case (Inr u)
    from k have "key \<in> set (widget_keys (w\<lparr>widget_keys := ks\<rparr>))" by simp
    from Cons.IH [OF this] obtain ks'
      where "snd (render_messages svc (SaveClick key) msgs (w\<lparr>widget_keys := ks\<rparr>))
               = w\<lparr>widget_keys := ks\<rparr>\<lparr>widget_keys := ks'\<rparr>" and "key \<in> set ks'"
      by blast
    with Inr m show ?thesis
      by (cases "render_message svc (SaveClick key) m w") (auto simp: bind_def)
  qed
qed

lemma render_messages_prefix:
  assumes "key \<notin> set (concat (map message_keys xs))"
    and "distinct (concat (map message_keys xs))"
    and "set (concat (map message_keys xs)) \<inter> set (widget_keys w) = {}"
    and "\<forall>m \<in> set xs. m_role m = Assistant \<longrightarrow> m_news_results m \<noteq> Some []"
  shows "render_messages svc (SaveClick key) (xs @ ys) w =
           render_messages svc (SaveClick key) ys
             (w\<lparr>widget_keys := widget_keys w @ concat (map message_keys xs)\<rparr>)"
  using assms
proof (induction xs arbitrary: w)
  case Nil
  show ?case by simp
next
  case (Cons m xs)
  let ?w = "w\<lparr>widget_keys := widget_keys w @ message_keys m\<rparr>"
  from Cons.prems have m1: "key \<notin> set (message_keys m)"
    and m2: "set (message_keys m) \<inter> set (widget_keys w) = {}"
    and m3: "m_role m = Assistant \<longrightarrow> m_news_results m \<noteq> Some []"
    by auto
  have head: "render_message svc (SaveClick key) m w = (Inr (), ?w)"
    by (rule render_message_unclicked [OF m1 m2 m3])
  from Cons.prems have x1: "key \<notin> set (concat (map message_keys xs))"
    and x2: "distinct (concat (map message_keys xs))"
    and x4: "\<forall>m \<in> set xs. m_role m = Assistant \<longrightarrow> m_news_results m \<noteq> Some []"
    by auto
  from Cons.prems(2) have "set (message_keys m) \<inter> set (concat (map message_keys xs)) = {}"
    by simp
  with Cons.prems(3) have x3: "set (concat (map message_keys xs)) \<inter> set (widget_keys ?w) = {}"
    by auto
  have "render_messages svc (SaveClick key) ((m # xs) @ ys) w
          = render_messages svc (SaveClick key) (xs @ ys) ?w"
    by (simp add: bind_def head)
  also note Cons.IH [OF x1 x2 x3 x4]
  finally show ?case by simp
qed

lemma render_message_clicked:
  assumes "m_role message = Assistant" and "m_news_results message = Some arts"
    and "j < length arts"
    and "button_key message ` {0..j} \<inter> set (widget_keys w) = {}"
  shows "notion_requests (snd (render_message svc (SaveClick (button_key message j)) message w))
           = notion_requests w @
               [notion_page svc (a_title (arts ! j)) (a_summary (arts ! j)) (a_link (arts ! j))] \<and>
         button_key message j
           \<in> set (widget_keys (snd (render_message svc (SaveClick (button_key message j)) message w)))"
proof -
  from assms(3) have ne: "arts \<noteq> []" by auto
  have eq: "render_message svc (SaveClick (button_key message j)) message w
          = render_buttons svc (SaveClick (button_key message j)) message 0 arts w"
    using assms(1,2) ne by (simp add: render_message_def st_columns_def bind_def ret_def)
  from assms(3) have "j < 0 + length arts" by simp
  from render_buttons_clicked [OF le0 this assms(4), of svc] show ?thesis
    unfolding eq by simp
qed

lemma snd_bind_ret: "snd (bind m (\<lambda>_. ret x) w) = snd (m w)"
  by (cases "m w"; cases "fst (m w)") (auto simp: bind_def ret_def)

lemma demo_button_rendered: "button_rendered (messages (session_state w_news)) 2 0"
  by (simp add: button_rendered_def w_news_def w0_def empty_session_def demo_messages_def
      message_keys_def button_key_def)

lemma demo_third_article:
  "m_news_results (messages (session_state w_news) ! 2) =
     Some [\<lparr>a_title = asc ''C'', a_link = asc ''http://c'', a_summary = asc ''third''\<rparr>]"
  by (simp add: w_news_def w0_def empty_session_def demo_messages_def)

text \<open>
  Claim C9. Let an assistant message of the chat history carry \<open>news_results\<close>, and
  let the save button of its article \<open>i\<close> be on the page. The execution that the click
  on this button triggers calls \<open>save_to_notion\<close> exactly once, with the title, the
  summary and the link of that article: the requests to the notes API grow by exactly the
  page of that article.
\<close>

theorem save_button_click:
  assumes rendered: "button_rendered (messages (session_state w)) k i"
    and arts: "m_news_results (messages (session_state w) ! k) = Some arts"
  shows "notion_requests
           (snd (run_script svc (SaveClick (button_key (messages (session_state w) ! k) i)) w))
         = notion_requests w @
             [notion_page svc (a_title (arts ! i)) (a_summary (arts ! i)) (a_link (arts ! i))]"
proof -
  let ?msgs = "messages (session_state w)"
  let ?m = "?msgs ! k"
  let ?key = "button_key ?m i"
  let ?ev = "SaveClick ?key"
  let ?pre = "take k ?msgs"
  let ?post = "drop (Suc k) ?msgs"
  let ?prekeys = "concat (map message_keys ?pre)"
  from rendered have k: "k < length ?msgs" and i: "i < length (message_keys ?m)"
    and cols: "\<forall>m \<in> set ?pre. m_role m = Assistant \<longrightarrow> m_news_results m \<noteq> Some []"
    and dist: "distinct (?prekeys @ take (Suc i) (message_keys ?m))"
    by (simp_all add: button_rendered_def)
  from i arts have role: "m_role ?m = Assistant"
    by (cases "m_role ?m = Assistant") (simp_all add: message_keys_def)
  from message_keys_arts [OF role arts] have keys: "message_keys ?m = map (button_key ?m) [0..<length arts]" .
  with i have ilen: "i < length arts" by simp
  then have own: "take (Suc i) (message_keys ?m) = map (button_key ?m) [0..<Suc i]"
    unfolding keys by (simp add: take_map del: upt_Suc)
  have "?key \<in> set (map (button_key ?m) [0..<Suc i])" by simp
  with dist own have notin: "?key \<notin> set ?prekeys" by auto
  from dist have dpre: "distinct ?prekeys" by simp
  from dist own have disj: "button_key ?m ` {0..i} \<inter> set ?prekeys = {}"
    by (auto simp del: upt_Suc simp: atLeastLessThanSuc_atLeastAtMost)
  let ?w0 = "w\<lparr>widget_keys := []\<rparr>"
  let ?w1 = "?w0\<lparr>widget_keys := widget_keys ?w0 @ ?prekeys\<rparr>"
  have split: "?msgs = ?pre @ ?m # ?post"
    using k by (simp add: id_take_nth_drop)
  have run: "snd (run_script svc ?ev w) = snd (render_messages svc ?ev ?msgs ?w0)"
    by (simp add: run_script_def sidebar_def begin_run_def main_area_def get_messages_def
        chat_input_def bind_def ret_def split: prod.splits sum.splits)
  have "render_messages svc ?ev (?pre @ ?m # ?post) ?w0 = render_messages svc ?ev (?m # ?post) ?w1"
    by (rule render_messages_prefix) (use notin dpre cols in simp_all)
  with split have pre: "render_messages svc ?ev ?msgs ?w0 = render_messages svc ?ev (?m # ?post) ?w1"
    by simp
  from disj have "button_key ?m ` {0..i} \<inter> set (widget_keys ?w1) = {}" by simp
  from render_message_clicked [OF role arts ilen this, of svc]
  have n: "notion_requests (snd (render_message svc ?ev ?m ?w1)) = notion_requests w @
             [notion_page svc (a_title (arts ! i)) (a_summary (arts ! i)) (a_link (arts ! i))]"
    and kin: "?key \<in> set (widget_keys (snd (render_message svc ?ev ?m ?w1)))"
    by simp_all
  obtain r w3 where m: "render_message svc ?ev ?m ?w1 = (r, w3)"
    by (cases "render_message svc ?ev ?m ?w1")
  from render_messages_after [of ?key w3 svc ?post] kin m obtain ks
    where post: "snd (render_messages svc ?ev ?post w3) = w3\<lparr>widget_keys := ks\<rparr>"
    by auto
  have "notion_requests (snd (render_messages svc ?ev (?m # ?post) ?w1)) = notion_requests w3"
    using m post by (cases r) (simp_all add: bind_def)
  with n m pre run show ?thesis by simp
qed

theorem save_button_click_witness:
  "button_rendered (messages (session_state w_news)) 2 0 \<and>
   m_news_results (messages (session_state w_news) ! 2) =
     Some [\<lparr>a_title = asc ''C'', a_link = asc ''http://c'', a_summary = asc ''third''\<rparr>] \<and>
   notion_requests
     (snd (run_script demo (SaveClick (button_key (messages (session_state w_news) ! 2) 0)) w_news))
   = notion_requests w_news @ [notion_page demo (asc ''C'') (asc ''third'') (asc ''http://c'')]"
  using demo_button_rendered demo_third_article
    save_button_click [OF demo_button_rendered demo_third_article, of demo]
  by simp

end
